theory Spec2Isabelle
  imports Complex_Main
begin

section \<open>Strings and the interpreter's tables\<close>

text \<open>
  The program is Python. A string is the list of its code points, each a natural number, so
  that every text the program can receive is covered. A literal of the source is written
  \<open>str ''...''\<close>.

  What the program takes from the interpreter's Unicode tables and from its floating-point
  rounding is a parameter of the model, the record \<open>interp\<close>: the decimal value of a code
  point (the property behind the pattern class \<open>\d\<close> and behind \<open>int()\<close>), the white space
  of \<open>str.strip()\<close> and \<open>int()\<close>, the alphanumeric code points behind \<open>\w\<close>, the
  function \<open>str.lower()\<close>, and \<open>round(x, 3)\<close>. The theorems below hold for every such
  record that satisfies \<open>tables_ok\<close>, which states three facts of every Unicode version:
  below 128 the decimal digits are \<open>0\<close> to \<open>9\<close> with their values, a decimal value is at
  most 9, and no decimal digit is white space. The record \<open>latin1\<close> is one instance; it
  agrees with the interpreter on every text of code points below 256.
\<close>

type_synonym pystr = "nat list"

definition str :: "string \<Rightarrow> pystr" where
  "str s = map of_char s"

record interp =
  decimal :: "nat \<Rightarrow> nat option"
  is_space :: "nat \<Rightarrow> bool"
  is_alnum :: "nat \<Rightarrow> bool"
  lower :: "pystr \<Rightarrow> pystr"
  round3 :: "real \<Rightarrow> real"

definition tables_ok :: "interp \<Rightarrow> bool" where
  "tables_ok I =
     ((\<forall>c. c < 128 \<longrightarrow> decimal I c = (if 48 \<le> c \<and> c \<le> 57 then Some (c - 48) else None)) \<and>
      (\<forall>c d. decimal I c = Some d \<longrightarrow> d \<le> 9) \<and>
      (\<forall>c. decimal I c \<noteq> None \<longrightarrow> \<not> is_space I c))"

definition is_digit :: "interp \<Rightarrow> nat \<Rightarrow> bool" where
  \<comment> \<open>the class \<open>\d\<close>: a code point with a decimal value\<close>
  "is_digit I c = (decimal I c \<noteq> None)"

definition is_word :: "interp \<Rightarrow> nat \<Rightarrow> bool" where
  \<comment> \<open>the class \<open>\w\<close>: alphanumeric code points and the underscore\<close>
  "is_word I c = (is_alnum I c \<or> c = 95)"

definition c_isspace :: "nat \<Rightarrow> bool" where
  \<comment> \<open>white space skipped by the integer parser once the text is ASCII\<close>
  "c_isspace c = ((9 \<le> c \<and> c \<le> 13) \<or> c = 32)"

definition ascii_digit :: "nat \<Rightarrow> bool" where
  "ascii_digit c = (48 \<le> c \<and> c \<le> 57)"

definition strip_with :: "(nat \<Rightarrow> bool) \<Rightarrow> pystr \<Rightarrow> pystr" where
  "strip_with P s = rev (dropWhile P (rev (dropWhile P s)))"

definition strip :: "interp \<Rightarrow> pystr \<Rightarrow> pystr" where
  \<comment> \<open>\<open>s.strip()\<close>\<close>
  "strip I s = strip_with (is_space I) s"

fun split_on :: "nat \<Rightarrow> pystr \<Rightarrow> pystr list" where
  \<comment> \<open>\<open>s.split(sep)\<close> for a one-character separator\<close>
  "split_on sep [] = [[]]"
| "split_on sep (c # cs) =
     (if c = sep then [] # split_on sep cs
      else (case split_on sep cs of [] \<Rightarrow> [[c]] | p # ps \<Rightarrow> (c # p) # ps))"

fun split_first :: "pystr \<Rightarrow> pystr \<Rightarrow> (pystr \<times> pystr) option" where
  \<comment> \<open>the text before and after the first occurrence of \<open>sep\<close>; \<open>None\<close> when \<open>sep\<close> does not occur\<close>
  "split_first sep [] = (if sep = [] then Some ([], []) else None)"
| "split_first sep (c # cs) =
     (if take (length sep) (c # cs) = sep then Some ([], drop (length sep) (c # cs))
      else (case split_first sep cs of None \<Rightarrow> None | Some (a, b) \<Rightarrow> Some (c # a, b)))"

definition contains :: "pystr \<Rightarrow> pystr \<Rightarrow> bool" where
  \<comment> \<open>\<open>sub in s\<close>\<close>
  "contains sub s = (split_first sub s \<noteq> None)"

definition rsplit1 :: "nat \<Rightarrow> pystr \<Rightarrow> pystr \<times> pystr" where
  \<comment> \<open>\<open>s.rsplit(sep, 1)\<close> when \<open>sep\<close> occurs in \<open>s\<close>: the text before and after its last occurrence\<close>
  "rsplit1 sep s =
     (rev (drop 1 (dropWhile (\<lambda>x. x \<noteq> sep) (rev s))), rev (takeWhile (\<lambda>x. x \<noteq> sep) (rev s)))"

fun join :: "pystr \<Rightarrow> pystr list \<Rightarrow> pystr" where
  \<comment> \<open>\<open>sep.join(parts)\<close>\<close>
  "join sep [] = []"
| "join sep [p] = p"
| "join sep (p # q # ps) = p @ sep @ join sep (q # ps)"

subsection \<open>Integers from and to text\<close>

definition int_max_str_digits :: nat where
  \<comment> \<open>the interpreter's default limit on the digits of a decimal conversion\<close>
  "int_max_str_digits = 4300"

definition to_ascii :: "interp \<Rightarrow> pystr \<Rightarrow> pystr" where
  \<comment> \<open>what \<open>int()\<close> does first: a text that is not all ASCII has its white space turned into
      blanks and its decimal digits into ASCII digits; any other code point from 127 on
      becomes \<open>?\<close>, which no integer literal contains\<close>
  "to_ascii I s =
     (if list_all (\<lambda>c. c < 128) s then s
      else map (\<lambda>c. if c < 127 then c
                    else if is_space I c then 32
                    else (case decimal I c of Some d \<Rightarrow> 48 + d | None \<Rightarrow> 63)) s)"

definition digit_groups :: "pystr \<Rightarrow> pystr option" where
  \<comment> \<open>digits with single underscores between them; the digits alone, or \<open>None\<close> when ill-formed\<close>
  "digit_groups body =
     (let parts = split_on 95 body
      in if list_all (\<lambda>p. p \<noteq> [] \<and> list_all ascii_digit p) parts then Some (concat parts) else None)"

definition digits_value :: "pystr \<Rightarrow> int" where
  "digits_value ds = foldl (\<lambda>a c. 10 * a + (int c - 48)) 0 ds"

definition py_int :: "interp \<Rightarrow> pystr \<Rightarrow> int option" where
  \<comment> \<open>\<open>int(s)\<close>; \<open>None\<close> stands for \<open>ValueError\<close>\<close>
  "py_int I s =
     (let s1 = to_ascii I s;
          s2 = strip_with c_isspace s1;
          neg = (s2 \<noteq> [] \<and> hd s2 = 45);
          body = (if s2 \<noteq> [] \<and> (hd s2 = 45 \<or> hd s2 = 43) then tl s2 else s2)
      in case digit_groups body of
           None \<Rightarrow> None
         | Some ds \<Rightarrow>
             if length ds > int_max_str_digits then None
             else Some (if neg then - digits_value ds else digits_value ds))"

function show_nat :: "nat \<Rightarrow> pystr" where
  "show_nat n = (if n < 10 then [48 + n] else show_nat (n div 10) @ [48 + n mod 10])"
  by pat_completeness auto
termination
  by (relation "measure (\<lambda>n. n)") auto

definition show_int :: "int \<Rightarrow> pystr" where
  \<comment> \<open>\<open>str(i)\<close>, as an f-string formats an integer\<close>
  "show_int i = (if i < 0 then 45 # show_nat (nat (- i)) else show_nat (nat i))"

subsection \<open>One instance of the tables\<close>

definition round_half_even :: "real \<Rightarrow> int" where
  "round_half_even y =
     (let f = \<lfloor>y\<rfloor>; d = y - of_int f
      in if d < 1 / 2 then f else if 1 / 2 < d then f + 1 else if even f then f else f + 1)"

definition latin1_lower :: "nat \<Rightarrow> nat" where
  "latin1_lower c =
     (if (65 \<le> c \<and> c \<le> 90) \<or> (192 \<le> c \<and> c \<le> 222 \<and> c \<noteq> 215) then c + 32 else c)"

definition latin1 :: interp where
  "latin1 =
     \<lparr>decimal = (\<lambda>c. if 48 \<le> c \<and> c \<le> 57 then Some (c - 48) else None),
      is_space = (\<lambda>c. (9 \<le> c \<and> c \<le> 13) \<or> (28 \<le> c \<and> c \<le> 32) \<or> c = 133 \<or> c = 160),
      is_alnum = (\<lambda>c. (48 \<le> c \<and> c \<le> 57) \<or> (65 \<le> c \<and> c \<le> 90) \<or> (97 \<le> c \<and> c \<le> 122) \<or>
                       c = 170 \<or> c = 178 \<or> c = 179 \<or> c = 181 \<or> c = 185 \<or> c = 186 \<or>
                       (188 \<le> c \<and> c \<le> 190) \<or> (192 \<le> c \<and> c \<le> 214) \<or>
                       (216 \<le> c \<and> c \<le> 246) \<or> (248 \<le> c \<and> c \<le> 255)),
      lower = map latin1_lower,
      round3 = (\<lambda>x. of_int (round_half_even (x * 1000)) / 1000)\<rparr>"

definition arabic_indic :: interp where
  \<comment> \<open>a second instance: \<open>latin1\<close> with the Arabic-Indic digits U+0660 to U+0669\<close>
  "arabic_indic =
     latin1\<lparr>decimal := (\<lambda>c. if 1632 \<le> c \<and> c \<le> 1641 then Some (c - 1632) else decimal latin1 c)\<rparr>"

section \<open>Regular expressions of the extractor\<close>

text \<open>
  The two patterns of \<open>ProxyScraper.__init__\<close> are written in a small regular-expression
  syntax. A match is computed as the interpreter's backtracking matcher explores it: for a
  pattern and a position in the text, \<open>step\<close> lists the positions (and group spans) at which
  the pattern can end, in the order in which backtracking tries them (greedy repetition
  first, the left alternative first). The first entry is the match that is reported.
\<close>

datatype cclass = Digit | NonDigit | WordCh | Exactly nat | OneOf "nat list"

fun in_class :: "interp \<Rightarrow> cclass \<Rightarrow> nat \<Rightarrow> bool" where
  "in_class I Digit c = is_digit I c"
| "in_class I NonDigit c = (\<not> is_digit I c)"
| "in_class I WordCh c = is_word I c"
| "in_class I (Exactly d) c = (c = d)"
| "in_class I (OneOf ds) c = (c \<in> set ds)"

datatype regex =
    Eps
  | Atom cclass
  | Bol
  | Eol
  | Seq regex regex
  | Alt regex regex
  | Opt regex
  | Rep cclass nat nat
  | Plus cclass
  | Group nat regex

type_synonym spans = "nat \<Rightarrow> (nat \<times> nat) option"
type_synonym mstate = "nat \<times> spans"

definition run_len :: "interp \<Rightarrow> cclass \<Rightarrow> pystr \<Rightarrow> nat \<Rightarrow> nat" where
  \<comment> \<open>how many consecutive characters from position \<open>p\<close> are in the class\<close>
  "run_len I cl t p = length (takeWhile (in_class I cl) (drop p t))"

fun step :: "interp \<Rightarrow> pystr \<Rightarrow> regex \<Rightarrow> mstate \<Rightarrow> mstate list" where
  "step I t Eps s = [s]"
| "step I t (Atom cl) s =
     (if fst s < length t \<and> in_class I cl (t ! fst s) then [(fst s + 1, snd s)] else [])"
| "step I t Bol s = (if fst s = 0 then [s] else [])"
| "step I t Eol s =
     (if fst s = length t \<or> (fst s + 1 = length t \<and> t ! fst s = 10) then [s] else [])"
| "step I t (Seq a b) s = concat (map (step I t b) (step I t a s))"
| "step I t (Alt a b) s = step I t a s @ step I t b s"
| "step I t (Opt a) s = step I t a s @ [s]"
| "step I t (Rep cl lo hi) s =
     map (\<lambda>k. (fst s + k, snd s)) (rev [lo ..< Suc (min hi (run_len I cl t (fst s)))])"
| "step I t (Plus cl) s =
     map (\<lambda>k. (fst s + k, snd s)) (rev [1 ..< Suc (run_len I cl t (fst s))])"
| "step I t (Group i a) s =
     map (\<lambda>s'. (fst s', (snd s')(i := Some (fst s, fst s')))) (step I t a s)"

definition match_at :: "interp \<Rightarrow> pystr \<Rightarrow> regex \<Rightarrow> nat \<Rightarrow> mstate option" where
  "match_at I t r p = (case step I t r (p, (\<lambda>_. None)) of [] \<Rightarrow> None | s # _ \<Rightarrow> Some s)"

definition group_text :: "pystr \<Rightarrow> spans \<Rightarrow> nat \<Rightarrow> pystr" where
  "group_text t sp i = (case sp i of None \<Rightarrow> [] | Some (a, b) \<Rightarrow> take (b - a) (drop a t))"

function findall_from :: "interp \<Rightarrow> regex \<Rightarrow> nat \<Rightarrow> pystr \<Rightarrow> nat \<Rightarrow> pystr list list" where
  \<comment> \<open>the scan of \<open>pattern.findall(text)\<close> from position \<open>p\<close>: the groups \<open>1..n\<close> of each match\<close>
  "findall_from I r n t p =
     (if length t < p then []
      else (case match_at I t r p of
              None \<Rightarrow> findall_from I r n t (p + 1)
            | Some (q, sp) \<Rightarrow>
                map (group_text t sp) [1 ..< Suc n] #
                findall_from I r n t (if p < q then q else p + 1)))"
  by pat_completeness auto
termination
  by (relation "measure (\<lambda>(I, r, n, t, p). Suc (length t) - p)") auto

definition findall :: "interp \<Rightarrow> regex \<Rightarrow> nat \<Rightarrow> pystr \<Rightarrow> pystr list list" where
  "findall I r n t = findall_from I r n t 0"

fun lit :: "pystr \<Rightarrow> regex" where
  "lit [] = Eps"
| "lit (c # cs) = Seq (Atom (Exactly c)) (lit cs)"

definition ip_re :: regex where
  \<comment> \<open>\<open>(?:\d{1,3}\.){3}\d{1,3}\<close>; 46 is the full stop\<close>
  "ip_re =
     Seq (Seq (Rep Digit 1 3) (Atom (Exactly 46)))
    (Seq (Seq (Rep Digit 1 3) (Atom (Exactly 46)))
    (Seq (Seq (Rep Digit 1 3) (Atom (Exactly 46)))
         (Rep Digit 1 3)))"

definition proxy_pattern :: regex where
  \<comment> \<open>\<open>(?:^|\D)((?:\d{1,3}\.){3}\d{1,3}):(\d{2,5})(?:\D|$)\<close>; 58 is the colon\<close>
  "proxy_pattern =
     Seq (Alt Bol (Atom NonDigit))
    (Seq (Group 1 ip_re)
    (Seq (Atom (Exactly 58))
    (Seq (Group 2 (Rep Digit 2 5))
         (Alt (Atom NonDigit) Eol))))"

definition proto_re :: regex where
  \<comment> \<open>\<open>https?|socks[45]\<close>\<close>
  "proto_re = Alt (Seq (lit (str ''http'')) (Opt (Atom (Exactly (of_char CHR ''s'')))))
                  (Seq (lit (str ''socks'')) (Atom (OneOf (str ''45''))))"

definition protocol_pattern :: regex where
  \<comment> \<open>\<open>(https?|socks[45])://(?:[\w]+:[\w]+@)?((?:\d{1,3}\.){3}\d{1,3}):(\d{2,5})\<close>;
      64 is the commercial at\<close>
  "protocol_pattern =
     Seq (Group 1 proto_re)
    (Seq (lit (str ''://''))
    (Seq (Opt (Seq (Plus WordCh) (Seq (Atom (Exactly 58))
              (Seq (Plus WordCh) (Atom (Exactly 64))))))
    (Seq (Group 2 ip_re)
    (Seq (Atom (Exactly 58))
         (Group 3 (Rep Digit 2 5))))))"

section \<open>Candidate extraction (\<open>proxy_scraper.py\<close>)\<close>

definition is_valid_ip :: "interp \<Rightarrow> pystr \<Rightarrow> bool" where
  \<comment> \<open>\<open>_is_valid_ip\<close>; a part that \<open>int()\<close> rejects raises \<open>ValueError\<close>, which is caught\<close>
  "is_valid_ip I ip =
     (let parts = split_on 46 ip
      in if length parts \<noteq> 4 then False
         else list_all (\<lambda>part. case py_int I part of None \<Rightarrow> False
                                | Some n \<Rightarrow> 0 \<le> n \<and> n \<le> 255) parts)"

definition is_valid_port :: "interp \<Rightarrow> pystr \<Rightarrow> bool" where
  \<comment> \<open>\<open>_is_valid_port\<close>\<close>
  "is_valid_port I port =
     (case py_int I port of None \<Rightarrow> False | Some port_num \<Rightarrow> 1 \<le> port_num \<and> port_num \<le> 65535)"

definition protocol_candidates :: "interp \<Rightarrow> pystr \<Rightarrow> pystr list" where
  \<comment> \<open>the first loop of \<open>_scrape_from_url\<close>\<close>
  "protocol_candidates I text =
     concat (map (\<lambda>m. case m of
                     [protocol, ip, port] \<Rightarrow>
                       if is_valid_ip I ip \<and> is_valid_port I port
                       then [protocol @ str ''://'' @ ip @ str '':'' @ port] else []
                   | _ \<Rightarrow> [])
                 (findall I protocol_pattern 3 text))"

definition basic_candidates :: "interp \<Rightarrow> pystr \<Rightarrow> pystr list" where
  \<comment> \<open>the second loop of \<open>_scrape_from_url\<close>\<close>
  "basic_candidates I text =
     concat (map (\<lambda>m. case m of
                     [ip, port] \<Rightarrow>
                       if is_valid_ip I ip \<and> is_valid_port I port
                       then [ip @ str '':'' @ port] else []
                   | _ \<Rightarrow> [])
                 (findall I proxy_pattern 2 text))"

definition extract_proxies :: "interp \<Rightarrow> pystr \<Rightarrow> pystr set" where
  \<comment> \<open>the set \<open>proxies\<close> built from the text of a response\<close>
  "extract_proxies I text = set (protocol_candidates I text) \<union> set (basic_candidates I text)"

datatype exn = TimeoutError | OtherError

datatype fetch = FetchRaised exn | Fetched int pystr

definition scrape_from_url :: "interp \<Rightarrow> fetch \<Rightarrow> pystr set" where
  \<comment> \<open>\<open>_scrape_from_url\<close>, given what \<open>session.get\<close> did: raised, or returned a status and a text\<close>
  "scrape_from_url I f =
     (case f of
        FetchRaised e \<Rightarrow> {}
      | Fetched status text \<Rightarrow> if status = 200 then extract_proxies I text else {})"

section \<open>The thorough checker (\<open>proxy_checker.py\<close>)\<close>

definition split_protocol :: "interp \<Rightarrow> pystr \<Rightarrow> pystr \<times> pystr" where
  \<comment> \<open>\<open>_parse_proxy\<close>, first part: the protocol and the rest; \<open>split('://', 1)\<close> cuts at the
      first occurrence, and \<open>None\<close> of \<open>split_first\<close> is the case \<open>'://' not in proxy\<close>\<close>
  "split_protocol I proxy =
     (case split_first (str ''://'') proxy of
        Some (scheme, rest) \<Rightarrow> (lower I scheme, rest)
      | None \<Rightarrow> (str ''http'', proxy))"

definition split_host_port :: "interp \<Rightarrow> pystr \<Rightarrow> pystr \<times> int" where
  \<comment> \<open>\<open>_parse_proxy\<close>, second part: host and port, with 8080 when there is no colon or
      \<open>int(port_str)\<close> raises \<open>ValueError\<close>\<close>
  "split_host_port I host_port =
     (if 58 \<in> set host_port
      then (case rsplit1 58 host_port of
              (host, port_str) \<Rightarrow>
                (host, case py_int I port_str of Some port \<Rightarrow> port | None \<Rightarrow> 8080))
      else (host_port, 8080))"

definition parse_proxy :: "interp \<Rightarrow> pystr \<Rightarrow> pystr \<times> pystr \<times> pystr \<times> int" where
  \<comment> \<open>\<open>_parse_proxy\<close>: \<open>(proxy_url, protocol, host, port)\<close>\<close>
  "parse_proxy I proxy =
     (case split_protocol I (strip I proxy) of
        (protocol, host_port) \<Rightarrow>
          (case split_host_port I host_port of
             (host, port) \<Rightarrow>
               (protocol @ str ''://'' @ host @ str '':'' @ show_int port, protocol, host, port)))"

record response =
  status :: int
  headers :: "(pystr \<times> pystr) list"
  body :: "exn + pystr"

text \<open>
  What one test request through the proxy does: it raises (time-out, refused connection,
  protocol error), or a response arrives after the given number of seconds. The body of the
  response is read separately, and reading it can raise too.
\<close>

datatype probe = Raised exn | Responded response real

record result =
  proxy :: pystr
  working :: bool
  protocols :: "pystr list"
  anonymity :: pystr
  response_time :: "real option"

definition proxy_headers :: "pystr list" where
  "proxy_headers = [str ''via'', str ''x-forwarded-for'', str ''forwarded-for'', str ''x-forwarded'',
                    str ''client-ip'', str ''forwarded'', str ''proxy-connection'']"

definition detect_anonymity :: "interp \<Rightarrow> pystr option \<Rightarrow> (pystr \<times> pystr) list \<Rightarrow> pystr \<Rightarrow> pystr" where
  \<comment> \<open>\<open>_detect_anonymity\<close>; the second argument is \<open>self.real_ip\<close>\<close>
  "detect_anonymity I real_ip hdrs response_text =
     (let header_str = join (str '' '') (map (\<lambda>(k, v). lower I v) hdrs);
          response_lower = lower I response_text;
          known = (case real_ip of None \<Rightarrow> False | Some ip \<Rightarrow> ip \<noteq> [])
      in if known \<and> contains (lower I (the real_ip)) response_lower then str ''transparent''
         else if known \<and> contains (lower I (the real_ip)) header_str then str ''transparent''
         else if list_ex (\<lambda>header. contains header header_str) proxy_headers then str ''anonymous''
         else str ''elite'')"

definition protocols_to_test :: "pystr \<Rightarrow> pystr list" where
  "protocols_to_test detected_protocol =
     (if detected_protocol \<in> set [str ''socks4'', str ''socks5''] then [detected_protocol]
      else if detected_protocol = str ''https'' then [str ''https'', str ''http'']
      else [str ''http'', str ''https''])"

definition test_protocol ::
    "interp \<Rightarrow> pystr option \<Rightarrow> (pystr \<Rightarrow> probe) \<Rightarrow> result \<Rightarrow> pystr \<Rightarrow> result" where
  \<comment> \<open>one round of the loop of \<open>_check_proxy\<close>; a raised exception is caught and the loop
      continues with the result unchanged\<close>
  "test_protocol I real_ip net res protocol =
     (case net protocol of
        Raised e \<Rightarrow> res
      | Responded resp elapsed \<Rightarrow>
          if status resp = 200
          then (case body resp of
                  Inl e \<Rightarrow> res
                | Inr response_text \<Rightarrow>
                    res\<lparr>working := True,
                        protocols := protocols res @ [protocol],
                        response_time := Some (round3 I elapsed),
                        anonymity := (if anonymity res = str ''unknown''
                                      then detect_anonymity I real_ip (headers resp) response_text
                                      else anonymity res)\<rparr>)
          else res)"

definition check_proxy_result ::
    "interp \<Rightarrow> pystr option \<Rightarrow> (pystr \<Rightarrow> probe) \<Rightarrow> pystr \<Rightarrow> result" where
  \<comment> \<open>the dictionary \<open>result\<close> of \<open>_check_proxy\<close> when the loop has ended\<close>
  "check_proxy_result I real_ip net p =
     (case parse_proxy I p of
        (proxy_url, detected_protocol, host, port) \<Rightarrow>
          foldl (test_protocol I real_ip net)
            \<lparr>proxy = host @ str '':'' @ show_int port, working = False, protocols = [],
             anonymity = str ''unknown'', response_time = None\<rparr>
            (protocols_to_test detected_protocol))"

definition check_proxy ::
    "interp \<Rightarrow> pystr option \<Rightarrow> (pystr \<Rightarrow> probe) \<Rightarrow> pystr \<Rightarrow> result option" where
  \<comment> \<open>\<open>_check_proxy\<close>\<close>
  "check_proxy I real_ip net p =
     (let res = check_proxy_result I real_ip net p in if working res then Some res else None)"

record checker =
  results :: "pystr \<rightharpoonup> result list"
  checked_count :: nat
  total_count :: nat
  working_count :: nat
  real_ip :: "pystr option"

definition new_checker :: checker where
  \<comment> \<open>\<open>ProxyChecker.__init__\<close>\<close>
  "new_checker =
     \<lparr>results = [str ''http'' \<mapsto> [], str ''https'' \<mapsto> [], str ''socks4'' \<mapsto> [],
                 str ''socks5'' \<mapsto> [], str ''elite'' \<mapsto> [], str ''anonymous'' \<mapsto> [],
                 str ''transparent'' \<mapsto> [], str ''all_working'' \<mapsto> []],
      checked_count = 0, total_count = 0, working_count = 0, real_ip = None\<rparr>"

definition append_if_present ::
    "pystr \<Rightarrow> result \<Rightarrow> (pystr \<rightharpoonup> result list) \<Rightarrow> (pystr \<rightharpoonup> result list)" where
  \<comment> \<open>\<open>if key in self.results: self.results[key].append(result)\<close>\<close>
  "append_if_present key res d = (case d key of None \<Rightarrow> d | Some l \<Rightarrow> d(key \<mapsto> l @ [res]))"

definition categorize_result :: "result \<Rightarrow> (pystr \<rightharpoonup> result list) \<Rightarrow> (pystr \<rightharpoonup> result list)" where
  \<comment> \<open>\<open>ProxyChecker._categorize_result\<close>; without the key \<open>all_working\<close> the first statement
      raises \<open>KeyError\<close>, which ends the task with the dictionary unchanged\<close>
  "categorize_result res d =
     (case d (str ''all_working'') of
        None \<Rightarrow> d
      | Some l \<Rightarrow>
          append_if_present (anonymity res) res
            (foldl (\<lambda>d protocol. append_if_present protocol res d)
               (d(str ''all_working'' \<mapsto> l @ [res])) (protocols res)))"

definition check_with_progress ::
    "interp \<Rightarrow> (pystr \<Rightarrow> pystr \<Rightarrow> probe) \<Rightarrow> checker \<Rightarrow> pystr \<Rightarrow> checker" where
  \<comment> \<open>\<open>ProxyChecker._check_with_progress\<close>, without the progress callback\<close>
  "check_with_progress I net c p =
     (case check_proxy I (real_ip c) (net p) p of
        None \<Rightarrow> c\<lparr>checked_count := checked_count c + 1\<rparr>
      | Some res \<Rightarrow>
          c\<lparr>checked_count := checked_count c + 1, working_count := working_count c + 1,
            results := categorize_result res (results c)\<rparr>)"

definition check_all ::
    "interp \<Rightarrow> pystr \<Rightarrow> (pystr \<Rightarrow> pystr \<Rightarrow> probe) \<Rightarrow> checker \<Rightarrow> pystr list \<Rightarrow>
     (pystr \<rightharpoonup> result list) \<times> checker" where
  \<comment> \<open>\<open>ProxyChecker.check_all\<close>: the returned dictionary and the checker afterwards. The list is
      the set of candidates in the order in which their checks complete; \<open>my_ip\<close> is what
      \<open>_get_real_ip\<close> returns; \<open>net p protocol\<close> is what the probe of candidate \<open>p\<close> does.\<close>
  "check_all I my_ip net c proxies =
     (if proxies = [] then (results c, c)
      else
        (let c1 = c\<lparr>checked_count := 0, working_count := 0, total_count := length proxies,
                     results := (\<lambda>key. map_option (\<lambda>l. []) (results c key)),
                     real_ip := Some my_ip\<rparr>;
             c2 = foldl (check_with_progress I net) c1 proxies
         in (results c2, c2)))"

section \<open>The fast checker (\<open>proxy_checker_fast.py\<close>)\<close>

definition quick_check :: "probe \<Rightarrow> real option" where
  \<comment> \<open>the body shared by \<open>_quick_check_http\<close>, \<open>_quick_check_https\<close> and \<open>_quick_check_socks\<close>:
      the latency when the status is acceptable, \<open>None\<close> otherwise and on any exception\<close>
  "quick_check pr =
     (case pr of
        Raised e \<Rightarrow> None
      | Responded resp elapsed \<Rightarrow>
          if status resp \<in> set [200, 204, 301, 302] then Some elapsed else None)"

definition quick_tasks :: "bool \<Rightarrow> pystr list" where
  \<comment> \<open>the probes that \<open>_parallel_check_proxy\<close> starts; they align with \<open>protocol_names\<close>\<close>
  "quick_tasks fast_mode =
     [str ''http'', str ''https''] @ (if \<not> fast_mode then [str ''socks4'', str ''socks5''] else [])"

definition protocol_names :: "pystr list" where
  "protocol_names = [str ''http'', str ''https'', str ''socks4'', str ''socks5'']"

fun collect :: "(pystr \<times> real option) list \<Rightarrow> result \<times> real list \<Rightarrow> result \<times> real list" where
  \<comment> \<open>the loop over \<open>enumerate(results)\<close>; \<open>timings\<close> is the list \<open>times\<close>\<close>
  "collect [] acc = acc"
| "collect ((name, res) # rest) (r, timings) =
     (case res of
        Some t \<Rightarrow>
          if 0 < t then collect rest (r\<lparr>protocols := protocols r @ [name]\<rparr>, timings @ [t])
          else collect rest (r, timings)
      | None \<Rightarrow> collect rest (r, timings))"

definition parallel_check_result :: "bool \<Rightarrow> (pystr \<Rightarrow> probe) \<Rightarrow> pystr \<Rightarrow> result" where
  \<comment> \<open>the dictionary \<open>result\<close> of \<open>_parallel_check_proxy\<close> at its end\<close>
  "parallel_check_result fast_mode net p =
     (let outcomes = map (\<lambda>name. quick_check (net name)) (quick_tasks fast_mode);
          (r, timings) = collect (zip protocol_names outcomes)
                         (\<lparr>proxy = p, working = False, protocols = [],
                           anonymity = str ''anonymous'', response_time = None\<rparr>, [])
      in if timings \<noteq> []
         then r\<lparr>working := True, response_time := Some (fold min (tl timings) (hd timings))\<rparr>
         else r)"

definition parallel_check_proxy :: "bool \<Rightarrow> (pystr \<Rightarrow> probe) \<Rightarrow> pystr \<Rightarrow> result option" where
  \<comment> \<open>\<open>_parallel_check_proxy\<close>\<close>
  "parallel_check_proxy fast_mode net p =
     (let r = parallel_check_result fast_mode net p in if working r then Some r else None)"

record fast_checker =
  fast_results :: "pystr \<rightharpoonup> result list"
  fast_checked_count :: nat
  fast_total_count :: nat
  fast_working_count :: nat
  FAST_MODE :: bool

definition fast_categorize_result ::
    "result \<Rightarrow> (pystr \<rightharpoonup> result list) \<Rightarrow> (pystr \<rightharpoonup> result list)" where
  \<comment> \<open>\<open>FastProxyChecker._categorize_result\<close> on a \<open>defaultdict(list)\<close>: the subscript
      \<open>self.results['all_working']\<close> creates the key, the tests \<open>in self.results\<close> do not\<close>
  "fast_categorize_result res d =
     append_if_present (anonymity res) res
       (foldl (\<lambda>d protocol. append_if_present protocol res d)
          (d(str ''all_working'' \<mapsto>
               (case d (str ''all_working'') of None \<Rightarrow> [] | Some l \<Rightarrow> l) @ [res]))
          (protocols res))"

definition fast_check_with_progress ::
    "(pystr \<Rightarrow> pystr \<Rightarrow> probe) \<Rightarrow> fast_checker \<Rightarrow> pystr \<Rightarrow> fast_checker" where
  \<comment> \<open>\<open>FastProxyChecker._check_with_progress\<close>, without the progress callback\<close>
  "fast_check_with_progress net c p =
     (case parallel_check_proxy (FAST_MODE c) (net p) p of
        None \<Rightarrow> c\<lparr>fast_checked_count := fast_checked_count c + 1\<rparr>
      | Some res \<Rightarrow>
          c\<lparr>fast_checked_count := fast_checked_count c + 1,
            fast_working_count := fast_working_count c + 1,
            fast_results := fast_categorize_result res (fast_results c)\<rparr>)"

definition fast_check_all ::
    "(pystr \<Rightarrow> pystr \<Rightarrow> probe) \<Rightarrow> fast_checker \<Rightarrow> pystr list \<Rightarrow> bool \<Rightarrow>
     (pystr \<rightharpoonup> result list) \<times> fast_checker" where
  \<comment> \<open>\<open>FastProxyChecker.check_all\<close>: the returned \<open>dict(self.results)\<close> and the checker afterwards\<close>
  "fast_check_all net c proxies fast_mode =
     (let c1 = c\<lparr>FAST_MODE := fast_mode, fast_checked_count := 0, fast_working_count := 0,
                  fast_total_count := length proxies, fast_results := Map.empty\<rparr>;
          c2 = foldl (fast_check_with_progress net) c1 proxies
      in (fast_results c2, c2))"

section \<open>The proxy cache (\<open>database.py\<close>)\<close>

text \<open>
  The table \<open>proxy_cache\<close> is the list of its rows in insertion order; the column \<open>proxy\<close>
  is unique. The column \<open>last_checked\<close> holds the text that \<open>CURRENT_TIMESTAMP\<close> produced
  (\<open>YYYY-MM-DD HH:MM:SS\<close>), which the operations below receive as \<open>stamp\<close>. A statement
  that raises is rolled back and leaves the table as it was (\<open>failed\<close>).

  The two counters are integers of the database: 64 bits, and an addition that leaves that
  range yields the floating-point number \<open>2\<^sup>6\<^sup>3\<close>. A number outside the 64-bit range is
  a floating-point number of magnitude \<open>2\<^sup>6\<^sup>3\<close> or more, which \<open>+ 1\<close> no longer changes.
  \<open>sql_add1\<close> is that addition on the numeric value.
\<close>

definition sql_add1 :: "int \<Rightarrow> int" where
  "sql_add1 x =
     (if - 9223372036854775808 \<le> x \<and> x < 9223372036854775807 then x + 1
      else if x = 9223372036854775807 then 9223372036854775808
      else x)"

record cache_row =
  row_proxy :: pystr
  row_protocols :: pystr
  row_anonymity :: pystr
  row_response_time :: real
  last_checked :: pystr
  check_count :: int
  success_count :: int
  country :: "pystr option"
  is_working :: bool

type_synonym cache = "cache_row list"

definition cache_working_proxy ::
    "cache \<Rightarrow> pystr \<Rightarrow> bool \<Rightarrow> pystr \<Rightarrow> pystr list \<Rightarrow> pystr \<Rightarrow> real \<Rightarrow> cache" where
  \<comment> \<open>\<open>cache_working_proxy\<close>: \<open>INSERT ... ON CONFLICT(proxy) DO UPDATE\<close>\<close>
  "cache_working_proxy db stamp failed p protos anon rt =
     (if failed then db
      else
        (let protocols_str = join (str '','') protos
         in if list_ex (\<lambda>r. row_proxy r = p) db
            then map (\<lambda>r. if row_proxy r = p
                          then r\<lparr>row_protocols := protocols_str, row_anonymity := anon,
                                 row_response_time := rt, last_checked := stamp,
                                 check_count := sql_add1 (check_count r),
                                 success_count := sql_add1 (success_count r),
                                 is_working := True\<rparr>
                          else r) db
            else db @ [\<lparr>row_proxy = p, row_protocols = protocols_str, row_anonymity = anon,
                         row_response_time = rt, last_checked = stamp, check_count = 1,
                         success_count = 1, country = None, is_working = True\<rparr>]))"

definition mark_proxy_dead :: "cache \<Rightarrow> pystr \<Rightarrow> bool \<Rightarrow> pystr \<Rightarrow> cache" where
  \<comment> \<open>\<open>mark_proxy_dead\<close>: \<open>UPDATE ... WHERE proxy = ?\<close>\<close>
  "mark_proxy_dead db stamp failed p =
     (if failed then db
      else map (\<lambda>r. if row_proxy r = p
                    then r\<lparr>is_working := False, last_checked := stamp,
                           check_count := sql_add1 (check_count r)\<rparr>
                    else r) db)"

datatype cache_op =
    Upsert pystr bool pystr "pystr list" pystr real
  | MarkDead pystr bool pystr

fun apply_op :: "cache \<Rightarrow> cache_op \<Rightarrow> cache" where
  "apply_op db (Upsert stamp failed p protos anon rt) =
     cache_working_proxy db stamp failed p protos anon rt"
| "apply_op db (MarkDead stamp failed p) = mark_proxy_dead db stamp failed p"

definition apply_ops :: "cache \<Rightarrow> cache_op list \<Rightarrow> cache" where
  "apply_ops db ops = foldl apply_op db ops"

definition counts_ok :: "cache_row \<Rightarrow> bool" where
  "counts_ok r = (0 \<le> success_count r \<and> success_count r \<le> check_count r)"

subsection \<open>Dates and times of the query\<close>

record datetime =
  year :: nat
  month :: nat
  day :: nat
  hour :: nat
  minute :: nat
  second :: nat
  microsecond :: nat

definition is_leap :: "nat \<Rightarrow> bool" where
  "is_leap y = (y mod 4 = 0 \<and> (y mod 100 \<noteq> 0 \<or> y mod 400 = 0))"

definition DAYS_IN_MONTH :: "nat \<Rightarrow> nat" where
  \<comment> \<open>the library's table, months 1 to 12\<close>
  "DAYS_IN_MONTH m = [31, 28, 31, 30, 31, 30, 31, 31, 30, 31, 30, 31] ! (m - 1)"

definition DAYS_BEFORE_MONTH :: "nat \<Rightarrow> nat" where
  "DAYS_BEFORE_MONTH m = [0, 31, 59, 90, 120, 151, 181, 212, 243, 273, 304, 334] ! (m - 1)"

definition days_before_month :: "nat \<Rightarrow> nat \<Rightarrow> nat" where
  "days_before_month y m = DAYS_BEFORE_MONTH m + (if 2 < m \<and> is_leap y then 1 else 0)"

definition days_before_year :: "nat \<Rightarrow> nat" where
  "days_before_year y = (y - 1) * 365 + (y - 1) div 4 + (y - 1) div 400 - (y - 1) div 100"

definition ymd2ord :: "nat \<Rightarrow> nat \<Rightarrow> nat \<Rightarrow> nat" where
  \<comment> \<open>the ordinal of a date; 1 is 0001-01-01\<close>
  "ymd2ord y m d = days_before_year y + days_before_month y m + d"

definition ord2ymd :: "nat \<Rightarrow> nat \<times> nat \<times> nat" where
  \<comment> \<open>the date of an ordinal, by the library's 400-year-cycle computation\<close>
  "ord2ymd ordinal =
     (let n = ordinal - 1;
          n400 = n div 146097; na = n mod 146097;
          n100 = na div 36524; nb = na mod 36524;
          n4 = nb div 1461; nc = nb mod 1461;
          n1 = nc div 365; nd = nc mod 365;
          y = n400 * 400 + 1 + n100 * 100 + n4 * 4 + n1
      in if n1 = 4 \<or> n100 = 4 then (y - 1, 12, 31)
         else
           (let leapyear = (n1 = 3 \<and> (n4 \<noteq> 24 \<or> n100 = 3));
                m = (nd + 50) div 32;
                preceding = DAYS_BEFORE_MONTH m + (if 2 < m \<and> leapyear then 1 else 0)
            in if nd < preceding
               then (let m' = m - 1;
                         preceding' = preceding -
                           (DAYS_IN_MONTH m' + (if m' = 2 \<and> leapyear then 1 else 0))
                     in (y, m', nd - preceding' + 1))
               else (y, m, nd - preceding + 1)))"

definition minus_hours :: "datetime \<Rightarrow> int \<Rightarrow> datetime option" where
  \<comment> \<open>\<open>dt - timedelta(hours=h)\<close>; \<open>None\<close> stands for \<open>OverflowError\<close>\<close>
  "minus_hours dt h =
     (let secs = int (hour dt) * 3600 + int (minute dt) * 60 + int (second dt) - h * 3600;
          days = int (ymd2ord (year dt) (month dt) (day dt)) + secs div 86400;
          s = nat (secs mod 86400)
      in if 0 < days \<and> days \<le> 3652059
         then (case ord2ymd (nat days) of
                 (y, m, d) \<Rightarrow>
                   Some \<lparr>year = y, month = m, day = d, hour = s div 3600,
                         minute = (s mod 3600) div 60, second = s mod 60,
                         microsecond = microsecond dt\<rparr>)
         else None)"

definition zpad :: "nat \<Rightarrow> nat \<Rightarrow> pystr" where
  \<comment> \<open>a number in at least \<open>k\<close> digits, padded with zeros\<close>
  "zpad k n = replicate (k - length (show_nat n)) 48 @ show_nat n"

definition isoformat :: "datetime \<Rightarrow> pystr" where
  \<comment> \<open>\<open>dt.isoformat()\<close>\<close>
  "isoformat dt =
     zpad 4 (year dt) @ str ''-'' @ zpad 2 (month dt) @ str ''-'' @ zpad 2 (day dt) @ str ''T'' @
     zpad 2 (hour dt) @ str '':'' @ zpad 2 (minute dt) @ str '':'' @ zpad 2 (second dt) @
     (if microsecond dt \<noteq> 0 then str ''.'' @ zpad 6 (microsecond dt) else [])"

subsection \<open>The query\<close>

fun text_less :: "pystr \<Rightarrow> pystr \<Rightarrow> bool" where
  \<comment> \<open>the order of two \<open>TEXT\<close> values: code point by code point, a proper prefix first\<close>
  "text_less [] [] = False"
| "text_less [] (b # bs) = True"
| "text_less (a # as) [] = False"
| "text_less (a # as) (b # bs) = (a < b \<or> (a = b \<and> text_less as bs))"

definition ascii_lower :: "nat \<Rightarrow> nat" where
  "ascii_lower c = (if 65 \<le> c \<and> c \<le> 90 then c + 32 else c)"

fun like :: "pystr \<Rightarrow> pystr \<Rightarrow> bool" where
  \<comment> \<open>\<open>value LIKE pattern\<close>: \<open>%\<close> (37) is any text, \<open>_\<close> (95) any character, ASCII letters
      match in either case\<close>
  "like [] v = (v = [])"
| "like (c # cs) [] = (c = 37 \<and> like cs [])"
| "like (c # cs) (x # xs) =
     (if c = 37 then like cs (x # xs) \<or> like (c # cs) xs
      else if c = 95 then like cs xs
      else ascii_lower c = ascii_lower x \<and> like cs xs)"

definition get_cached_proxies ::
    "cache \<Rightarrow> datetime \<Rightarrow> pystr option \<Rightarrow> pystr option \<Rightarrow> int \<Rightarrow> cache_row list option" where
  \<comment> \<open>\<open>get_cached_proxies\<close>; \<open>now\<close> is what \<open>datetime.now()\<close> returns. Both sides of
      \<open>last_checked > ?\<close> are texts. \<open>None\<close> is the \<open>OverflowError\<close> of the subtraction.
      Rows of equal \<open>response_time\<close>, whose order the database leaves open, stay in table order.\<close>
  "get_cached_proxies db now protocol anon max_age_hours =
     (case minus_hours now max_age_hours of
        None \<Rightarrow> None
      | Some cutoff_time \<Rightarrow>
          Some (sort_key row_response_time
            (filter (\<lambda>r. is_working r \<and> text_less (isoformat cutoff_time) (last_checked r) \<and>
                          (case protocol of
                             None \<Rightarrow> True
                           | Some pr \<Rightarrow> pr = [] \<or> like (str ''%'' @ pr @ str ''%'') (row_protocols r)) \<and>
                          (case anon of
                             None \<Rightarrow> True
                           | Some a \<Rightarrow> a = [] \<or> row_anonymity r = a))
                    db)))"

section \<open>Specification predicates\<close>

text \<open>
  When a probe counts in each checker, its latency, and whether an outcome of the fast checker
  is a hit; the words a pattern can match (anchors match the empty word), the groups it sets,
  and the part of a text between two positions; the decimal value of a text of digits, and
  the shape of an octet and of a port as the specification words them.
\<close>

definition thorough_probe_succeeds :: "probe \<Rightarrow> bool" where
  \<comment> \<open>a probe of the thorough checker counts: status 200 and a body that could be read\<close>
  "thorough_probe_succeeds pr =
     (case pr of
        Raised e \<Rightarrow> False
      | Responded resp elapsed \<Rightarrow>
          status resp = 200 \<and> (case body resp of Inl e \<Rightarrow> False | Inr response_text \<Rightarrow> True))"

definition fast_probe_succeeds :: "probe \<Rightarrow> bool" where
  \<comment> \<open>a probe of the fast checker counts: an acceptable status and a positive latency\<close>
  "fast_probe_succeeds pr =
     (case pr of
        Raised e \<Rightarrow> False
      | Responded resp elapsed \<Rightarrow> status resp \<in> {200, 204, 301, 302} \<and> 0 < elapsed)"

definition latency :: "probe \<Rightarrow> real" where
  "latency pr = (case pr of Raised e \<Rightarrow> 0 | Responded resp elapsed \<Rightarrow> elapsed)"

definition hit :: "pystr \<times> real option \<Rightarrow> bool" where
  "hit x = (case snd x of None \<Rightarrow> False | Some t \<Rightarrow> 0 < t)"


fun lang :: "interp \<Rightarrow> regex \<Rightarrow> pystr \<Rightarrow> bool" where
  "lang I Eps w = (w = [])"
| "lang I (Atom cl) w = (\<exists>c. w = [c] \<and> in_class I cl c)"
| "lang I Bol w = (w = [])"
| "lang I Eol w = (w = [])"
| "lang I (Seq a b) w = (\<exists>u v. w = u @ v \<and> lang I a u \<and> lang I b v)"
| "lang I (Alt a b) w = (lang I a w \<or> lang I b w)"
| "lang I (Opt a) w = (w = [] \<or> lang I a w)"
| "lang I (Rep cl lo hi) w = (lo \<le> length w \<and> length w \<le> hi \<and> list_all (in_class I cl) w)"
| "lang I (Plus cl) w = (1 \<le> length w \<and> list_all (in_class I cl) w)"
| "lang I (Group i a) w = lang I a w"

fun groups :: "regex \<Rightarrow> nat set" where
  "groups (Seq a b) = groups a \<union> groups b"
| "groups (Alt a b) = groups a \<union> groups b"
| "groups (Opt a) = groups a"
| "groups (Group i a) = insert i (groups a)"
| "groups _ = {}"

definition between :: "pystr \<Rightarrow> nat \<Rightarrow> nat \<Rightarrow> pystr" where
  "between t p q = take (q - p) (drop p t)"

definition decimal_value :: "interp \<Rightarrow> pystr \<Rightarrow> int" where
  \<comment> \<open>the number that a text of decimal digits denotes\<close>
  "decimal_value I w = foldl (\<lambda>a c. 10 * a + int (the (decimal I c))) 0 w"

definition octet :: "interp \<Rightarrow> pystr \<Rightarrow> bool" where
  "octet I x = (x \<noteq> [] \<and> list_all (is_digit I) x \<and> 0 \<le> decimal_value I x \<and> decimal_value I x \<le> 255)"

definition port_text :: "interp \<Rightarrow> pystr \<Rightarrow> bool" where
  "port_text I x =
     (x \<noteq> [] \<and> list_all (is_digit I) x \<and> 1 \<le> decimal_value I x \<and> decimal_value I x \<le> 65535)"

declare findall_from.simps [simp del]
declare show_nat.simps [simp del]

section \<open>The matcher is sound\<close>

lemma between_append: "p \<le> m \<Longrightarrow> m \<le> q \<Longrightarrow> between t p q = between t p m @ between t m q"
proof -
  assume a: "p \<le> m" "m \<le> q"
  then have "q - p = (m - p) + (q - m)" by simp
  then have "take (q - p) (drop p t) = take (m - p) (drop p t) @ take (q - m) (drop (m - p) (drop p t))"
    by (simp only: take_add)
  with a show ?thesis by (simp add: between_def)
qed

lemma between_self: "between t p p = []"
  by (simp add: between_def)

lemma run_len_le: "p + run_len I cl t p \<le> max p (length t)"
proof -
  have "length (takeWhile (in_class I cl) (drop p t)) \<le> length (drop p t)"
    by (rule length_takeWhile_le)
  then show ?thesis by (simp add: run_len_def)
qed

lemma between_run:
  assumes "k \<le> run_len I cl t p"
  shows "length (between t p (p + k)) = k \<and> list_all (in_class I cl) (between t p (p + k))"
proof -
  let ?xs = "drop p t"
  have k: "k \<le> length (takeWhile (in_class I cl) ?xs)" using assms by (simp add: run_len_def)
  have le: "length (takeWhile (in_class I cl) ?xs) \<le> length ?xs" by (rule length_takeWhile_le)
  have "take k ?xs = take k (takeWhile (in_class I cl) ?xs)"
  proof -
    have "take k (takeWhile (in_class I cl) ?xs @ dropWhile (in_class I cl) ?xs) = take k (takeWhile (in_class I cl) ?xs)"
      using k by (simp only: take_append) simp
    then show ?thesis by simp
  qed
  moreover have "list_all (in_class I cl) (take k (takeWhile (in_class I cl) ?xs))"
    by (auto simp: list_all_iff dest!: in_set_takeD set_takeWhileD)
  ultimately show ?thesis using k le by (simp add: between_def)
qed

lemma step_sound:
  "s' \<in> set (step I t r s) \<Longrightarrow>
     fst s \<le> fst s' \<and> fst s' \<le> max (fst s) (length t) \<and> lang I r (between t (fst s) (fst s'))"
proof (induction r arbitrary: s s')
  case Eps
  then show ?case by (simp add: between_self)
next
  case (Atom cl)
  then have p: "fst s < length t" "in_class I cl (t ! fst s)" "s' = (fst s + 1, snd s)"
    by (auto split: if_splits)
  then have "between t (fst s) (fst s') = [t ! fst s]"
    by (simp add: between_def take_Suc_conv_app_nth hd_drop_conv_nth take_Suc)
  with p show ?case by simp
next
  case Bol
  then show ?case by (auto simp: between_self split: if_splits)
next
  case Eol
  then show ?case by (auto simp: between_self split: if_splits)
next
  case (Seq a b)
  then obtain m where m: "m \<in> set (step I t a s)" "s' \<in> set (step I t b m)" by auto
  from Seq.IH(1)[OF m(1)] Seq.IH(2)[OF m(2)] show ?case
    by (auto simp: between_append[of "fst s" "fst m" "fst s'"])
next
  case (Alt a b)
  from Alt.prems have "s' \<in> set (step I t a s) \<or> s' \<in> set (step I t b s)" by simp
  then show ?case
  proof
    assume "s' \<in> set (step I t a s)"
    from Alt.IH(1)[OF this] show ?thesis by simp
  next
    assume "s' \<in> set (step I t b s)"
    from Alt.IH(2)[OF this] show ?thesis by simp
  qed
next
  case (Opt a)
  from Opt.prems have "s' \<in> set (step I t a s) \<or> s' = s" by auto
  then show ?case
  proof
    assume "s' \<in> set (step I t a s)"
    from Opt.IH[OF this] show ?thesis by simp
  next
    assume "s' = s"
    then show ?thesis by (simp add: between_self)
  qed
next
  case (Rep cl lo hi)
  then obtain k where k: "s' = (fst s + k, snd s)" "lo \<le> k" "k \<le> hi" "k \<le> run_len I cl t (fst s)"
    by auto
  from between_run[OF k(4)] run_len_le[of "fst s" I cl t] k show ?case by auto
next
  case (Plus cl)
  then obtain k where k: "s' = (fst s + k, snd s)" "1 \<le> k" "k \<le> run_len I cl t (fst s)"
    by auto
  from between_run[OF k(3)] run_len_le[of "fst s" I cl t] k show ?case by auto
next
  case (Group i a)
  from Group.prems obtain m where m: "m \<in> set (step I t a s)" "fst s' = fst m" by auto
  from Group.IH[OF m(1)] m(2) show ?case by simp
qed

lemma step_spans:
  "s' \<in> set (step I t r s) \<Longrightarrow> i \<notin> groups r \<Longrightarrow> snd s' i = snd s i"
proof (induction r arbitrary: s s')
  case (Seq a b)
  then obtain m where m: "m \<in> set (step I t a s)" "s' \<in> set (step I t b m)" by auto
  with Seq show ?case by auto
qed (auto split: if_splits)


lemma match_at_in_step: "match_at I t r p = Some s \<Longrightarrow> s \<in> set (step I t r (p, (\<lambda>_. None)))"
  by (auto simp: match_at_def split: list.splits)

lemma findall_from_elem:
  "m \<in> set (findall_from I r n t p) \<Longrightarrow>
     \<exists>p' q sp. (q, sp) \<in> set (step I t r (p', (\<lambda>_. None))) \<and> m = map (group_text t sp) [1 ..< Suc n]"
proof (induction I r n t p rule: findall_from.induct)
  case (1 I r n t p)
  show ?case
  proof (cases "length t < p")
    case True
    with "1.prems" show ?thesis by (simp add: findall_from.simps[of I r n t p])
  next
    case False
    show ?thesis
    proof (cases "match_at I t r p")
      case None
      with False "1.prems" have "m \<in> set (findall_from I r n t (p + 1))"
        by (simp add: findall_from.simps[of I r n t p])
      from "1.IH"(1)[OF False None this] show ?thesis .
    next
      case (Some s)
      obtain q sp where s: "s = (q, sp)" by (cases s)
      from Some s False "1.prems"
      have "m = map (group_text t sp) [1 ..< Suc n] \<or>
            m \<in> set (findall_from I r n t (if p < q then q else p + 1))"
        by (simp add: findall_from.simps[of I r n t p])
      then show ?thesis
      proof
        assume "m = map (group_text t sp) [1 ..< Suc n]"
        with match_at_in_step[OF Some] s show ?thesis by blast
      next
        assume "m \<in> set (findall_from I r n t (if p < q then q else p + 1))"
        from "1.IH"(2)[OF False Some s[symmetric] this] show ?thesis .
      qed
    qed
  qed
qed

lemma seq_stepE:
  "s' \<in> set (step I t (Seq a b) s) \<Longrightarrow> \<exists>m. m \<in> set (step I t a s) \<and> s' \<in> set (step I t b m)"
  by auto

lemma group_step:
  assumes "s' \<in> set (step I t (Group i a) s)"
  shows "snd s' i = Some (fst s, fst s') \<and> lang I a (between t (fst s) (fst s'))"
proof -
  from assms obtain m where m: "m \<in> set (step I t a s)" "s' = (fst m, (snd m)(i := Some (fst s, fst m)))"
    by auto
  from step_sound[OF m(1)] m(2) show ?thesis by simp
qed

lemma group_text_between: "sp i = Some (a, b) \<Longrightarrow> group_text t sp i = between t a b"
  by (simp add: group_text_def between_def)

lemma groups_lit: "groups (lit w) = {}"
  by (induction w) auto

lemma lang_lit: "lang I (lit w) v = (v = w)"
  by (induction w arbitrary: v) auto

lemma groups_ip_re: "groups ip_re = {}"
  by (simp add: ip_re_def)

lemma proxy_pattern_groups:
  assumes "s' \<in> set (step I t proxy_pattern s)"
  shows "lang I ip_re (group_text t (snd s') 1) \<and> lang I (Rep Digit 2 5) (group_text t (snd s') 2)"
proof -
  from assms obtain s1 s2 s3 s4 where
    c: "s2 \<in> set (step I t (Group 1 ip_re) s1)"
       "s3 \<in> set (step I t (Atom (Exactly 58)) s2)"
       "s4 \<in> set (step I t (Group 2 (Rep Digit 2 5)) s3)"
       "s' \<in> set (step I t (Alt (Atom NonDigit) Eol) s4)"
    unfolding proxy_pattern_def by (blast dest!: seq_stepE)
  have g1: "snd s2 1 = Some (fst s1, fst s2)" "lang I ip_re (between t (fst s1) (fst s2))"
    using group_step[OF c(1)] by simp_all
  have g2: "snd s4 2 = Some (fst s3, fst s4)" "lang I (Rep Digit 2 5) (between t (fst s3) (fst s4))"
    using group_step[OF c(3)] by simp_all
  have "snd s' 1 = snd s4 1" using step_spans[OF c(4), of 1] by simp
  also have "\<dots> = snd s3 1" using step_spans[OF c(3), of 1] by simp
  also have "\<dots> = snd s2 1" using step_spans[OF c(2), of 1] by simp
  finally have a: "snd s' 1 = Some (fst s1, fst s2)" using g1 by simp
  have b: "snd s' 2 = Some (fst s3, fst s4)" using step_spans[OF c(4), of 2] g2 by simp
  have t1: "group_text t (snd s') 1 = between t (fst s1) (fst s2)"
    by (rule group_text_between[of "snd s'" 1, OF a])
  have t2: "group_text t (snd s') 2 = between t (fst s3) (fst s4)"
    by (rule group_text_between[of "snd s'" 2, OF b])
  show ?thesis using g1(2) g2(2) by (simp only: t1 t2)
qed

lemma protocol_pattern_groups:
  assumes "s' \<in> set (step I t protocol_pattern s)"
  shows "lang I proto_re (group_text t (snd s') 1) \<and> lang I ip_re (group_text t (snd s') 2)
         \<and> lang I (Rep Digit 2 5) (group_text t (snd s') 3)"
proof -
  let ?u = "Opt (Seq (Plus WordCh) (Seq (Atom (Exactly 58))
              (Seq (Plus WordCh) (Atom (Exactly 64)))))"
  from assms obtain s1 s2 s3 s4 s5 where
    c: "s1 \<in> set (step I t (Group 1 proto_re) s)"
       "s2 \<in> set (step I t (lit (str ''://'')) s1)"
       "s3 \<in> set (step I t ?u s2)"
       "s4 \<in> set (step I t (Group 2 ip_re) s3)"
       "s5 \<in> set (step I t (Atom (Exactly 58)) s4)"
       "s' \<in> set (step I t (Group 3 (Rep Digit 2 5)) s5)"
    unfolding protocol_pattern_def proto_re_def by (blast dest!: seq_stepE)
  have g1: "snd s1 1 = Some (fst s, fst s1)" "lang I proto_re (between t (fst s) (fst s1))"
    using group_step[OF c(1)] by simp_all
  have g2: "snd s4 2 = Some (fst s3, fst s4)" "lang I ip_re (between t (fst s3) (fst s4))"
    using group_step[OF c(4)] by simp_all
  have g3: "snd s' 3 = Some (fst s5, fst s')" "lang I (Rep Digit 2 5) (between t (fst s5) (fst s'))"
    using group_step[OF c(6)] by simp_all
  have "snd s' 1 = snd s5 1" using step_spans[OF c(6), of 1] by simp
  also have "\<dots> = snd s4 1" using step_spans[OF c(5), of 1] by simp
  also have "\<dots> = snd s3 1" using step_spans[OF c(4), of 1] by (simp add: groups_ip_re)
  also have "\<dots> = snd s2 1" using step_spans[OF c(3), of 1] by simp
  also have "\<dots> = snd s1 1" using step_spans[OF c(2), of 1] by (simp add: groups_lit)
  finally have a: "snd s' 1 = Some (fst s, fst s1)" using g1 by simp
  have "snd s' 2 = snd s5 2" using step_spans[OF c(6), of 2] by simp
  also have "\<dots> = snd s4 2" using step_spans[OF c(5), of 2] by simp
  finally have b: "snd s' 2 = Some (fst s3, fst s4)" using g2 by simp
  have t1: "group_text t (snd s') 1 = between t (fst s) (fst s1)"
    by (rule group_text_between[of "snd s'" 1, OF a])
  have t2: "group_text t (snd s') 2 = between t (fst s3) (fst s4)"
    by (rule group_text_between[of "snd s'" 2, OF b])
  have t3: "group_text t (snd s') 3 = between t (fst s5) (fst s')"
    by (rule group_text_between[of "snd s'" 3, OF g3(1)])
  show ?thesis using g1(2) g2(2) g3(2) by (simp only: t1 t2 t3)
qed

lemma upt_1_3: "map f [1 ..< Suc 2] = [f 1, f 2]"
  by (simp add: upt_rec numeral_2_eq_2)

lemma upt_1_4: "map f [1 ..< Suc 3] = [f 1, f 2, f 3]"
  by (simp add: upt_rec numeral_2_eq_2 numeral_3_eq_3)

lemma ok_ascii:
  "tables_ok I \<Longrightarrow> c < 128 \<Longrightarrow> decimal I c = (if 48 \<le> c \<and> c \<le> 57 then Some (c - 48) else None)"
  by (simp add: tables_ok_def)

lemma ok_le9: "tables_ok I \<Longrightarrow> decimal I c = Some d \<Longrightarrow> d \<le> 9"
  by (auto simp: tables_ok_def)

lemma ok_not_space: "tables_ok I \<Longrightarrow> is_digit I c \<Longrightarrow> \<not> is_space I c"
  by (auto simp: tables_ok_def is_digit_def)

lemma digit_not_special:
  assumes "tables_ok I" "is_digit I c"
  shows "c \<noteq> 46" "c \<noteq> 95" "c \<noteq> 45" "c \<noteq> 43" "c \<noteq> 58"
  using assms ok_ascii[OF assms(1), of c] by (auto simp: is_digit_def)

lemma digits_no_char: "list_all P w \<Longrightarrow> \<not> P c \<Longrightarrow> c \<notin> set w"
  by (auto simp: list_all_iff)

lemma not_digit_special:
  assumes "tables_ok I"
  shows "\<not> is_digit I 46" "\<not> is_digit I 95" "\<not> is_digit I 58"
  using ok_ascii[OF assms, of 46] ok_ascii[OF assms, of 95] ok_ascii[OF assms, of 58]
  by (simp_all add: is_digit_def)

lemma split_on_none: "sep \<notin> set w \<Longrightarrow> split_on sep w = [w]"
  by (induction w) auto

lemma split_on_append: "sep \<notin> set w \<Longrightarrow> split_on sep (w @ sep # rest) = w # split_on sep rest"
  by (induction w) auto

lemma strip_with_id: "w \<noteq> [] \<Longrightarrow> \<not> P (hd w) \<Longrightarrow> \<not> P (last w) \<Longrightarrow> strip_with P w = w"
proof -
  assume a: "w \<noteq> []" "\<not> P (hd w)" "\<not> P (last w)"
  then have 1: "dropWhile P w = w" by (cases w) auto
  from a have "rev w \<noteq> []" "\<not> P (hd (rev w))" by (simp_all add: hd_rev)
  then have 2: "dropWhile P (rev w) = rev w" by (cases "rev w") auto
  show ?thesis by (simp add: strip_with_def 1 2)
qed

lemma to_ascii_char:
  assumes "tables_ok I" "is_digit I c"
  shows "(if c < 127 then c else if is_space I c then 32
          else (case decimal I c of Some d \<Rightarrow> 48 + d | None \<Rightarrow> 63)) = 48 + the (decimal I c)"
proof (cases "c < 127")
  case True
  with assms ok_ascii[OF assms(1), of c] show ?thesis
    by (auto simp: is_digit_def split: if_splits)
next
  case False
  with assms ok_not_space[OF assms] show ?thesis
    by (auto simp: is_digit_def)
qed

lemma to_ascii_digits:
  assumes "tables_ok I" "list_all (is_digit I) w"
  shows "to_ascii I w = map (\<lambda>c. 48 + the (decimal I c)) w"
proof (cases "list_all (\<lambda>c. c < 128) w")
  case True
  have "\<And>c. c \<in> set w \<Longrightarrow> c = 48 + the (decimal I c)"
  proof -
    fix c assume c: "c \<in> set w"
    with True assms(2) have "c < 128" "is_digit I c" by (auto simp: list_all_iff)
    with ok_ascii[OF assms(1), of c] show "c = 48 + the (decimal I c)"
      by (auto simp: is_digit_def split: if_splits)
  qed
  then have "map (\<lambda>c. 48 + the (decimal I c)) w = w"
    by (simp add: map_idI)
  with True show ?thesis by (simp add: to_ascii_def)
next
  case False
  have "map (\<lambda>c. if c < 127 then c else if is_space I c then 32
                  else (case decimal I c of Some d \<Rightarrow> 48 + d | None \<Rightarrow> 63)) w =
        map (\<lambda>c. 48 + the (decimal I c)) w"
    using assms by (intro map_cong refl to_ascii_char) (auto simp: list_all_iff)
  with False show ?thesis by (simp add: to_ascii_def)
qed

lemma ascii_digit_of:
  assumes "tables_ok I" "is_digit I c"
  shows "ascii_digit (48 + the (decimal I c))"
proof -
  from assms(2) obtain d where d: "decimal I c = Some d" by (auto simp: is_digit_def)
  from ok_le9[OF assms(1) d] d show ?thesis by (simp add: ascii_digit_def)
qed

lemma digits_value_map:
  "foldl (\<lambda>a c. 10 * a + (int c - 48)) a (map (\<lambda>c. 48 + the (decimal I c)) w) =
   foldl (\<lambda>a c. 10 * a + int (the (decimal I c))) a w"
  by (induction w arbitrary: a) simp_all

lemma py_int_digits:
  assumes ok: "tables_ok I" and ne: "w \<noteq> []" and dg: "list_all (is_digit I) w"
    and len: "length w \<le> int_max_str_digits"
  shows "py_int I w = Some (decimal_value I w)"
proof -
  let ?w = "map (\<lambda>c. 48 + the (decimal I c)) w"
  have ta: "to_ascii I w = ?w" by (rule to_ascii_digits[OF ok dg])
  have all: "list_all ascii_digit ?w"
    using dg ascii_digit_of[OF ok] by (auto simp: list_all_iff)
  have ne': "?w \<noteq> []" using ne by simp
  have hd: "ascii_digit (hd ?w)" and lst: "ascii_digit (last ?w)"
    using ne dg ascii_digit_of[OF ok] by (simp_all add: hd_map last_map list_all_iff)
  have st: "strip_with c_isspace ?w = ?w"
    using ne' hd lst by (intro strip_with_id) (auto simp: ascii_digit_def c_isspace_def)
  have sg: "hd ?w \<noteq> 45" "hd ?w \<noteq> 43"
    using hd by (auto simp: ascii_digit_def)
  have "95 \<notin> set ?w"
    using all by (auto simp: list_all_iff ascii_digit_def)
  then have "split_on 95 ?w = [?w]" by (rule split_on_none)
  then have dgp: "digit_groups ?w = Some ?w"
    using ne' all by (simp add: digit_groups_def del: map_is_Nil_conv)
  have val: "digits_value ?w = decimal_value I w"
    by (simp add: digits_value_def decimal_value_def digits_value_map)
  show ?thesis
    unfolding py_int_def ta Let_def st
    using ne' sg len dgp val by (simp del: map_is_Nil_conv hd_map)
qed

lemma decimal_value_nonneg_aux:
  "0 \<le> a \<Longrightarrow> 0 \<le> foldl (\<lambda>a c. 10 * a + int (the (decimal I c))) a w"
  by (induction w arbitrary: a) simp_all

lemma decimal_value_nonneg: "0 \<le> decimal_value I w"
  unfolding decimal_value_def by (rule decimal_value_nonneg_aux) simp

lemma in_class_Digit: "in_class I Digit = is_digit I"
  by (rule ext) simp

lemma lang_ip_re:
  assumes "lang I ip_re ip"
  shows "\<exists>a b c d. ip = a @ [46] @ b @ [46] @ c @ [46] @ d \<and>
            lang I (Rep Digit 1 3) a \<and> lang I (Rep Digit 1 3) b \<and>
            lang I (Rep Digit 1 3) c \<and> lang I (Rep Digit 1 3) d"
proof -
  have dot: "\<And>w. lang I (Atom (Exactly 46)) w = (w = [46])" by auto
  have sq: "\<And>w. lang I (Seq (Rep Digit 1 3) (Atom (Exactly 46))) w =
                 (\<exists>a. w = a @ [46] \<and> lang I (Rep Digit 1 3) a)"
    by (simp only: lang.simps(5) dot) blast
  from assms obtain u1 u2 u3 d where u:
    "ip = u1 @ u2 @ u3 @ d"
    "lang I (Seq (Rep Digit 1 3) (Atom (Exactly 46))) u1"
    "lang I (Seq (Rep Digit 1 3) (Atom (Exactly 46))) u2"
    "lang I (Seq (Rep Digit 1 3) (Atom (Exactly 46))) u3"
    "lang I (Rep Digit 1 3) d"
    unfolding ip_re_def lang.simps(5) by blast
  from u(2-4) obtain a b c where
    "u1 = a @ [46]" "lang I (Rep Digit 1 3) a" "u2 = b @ [46]" "lang I (Rep Digit 1 3) b"
    "u3 = c @ [46]" "lang I (Rep Digit 1 3) c"
    unfolding sq by blast
  with u(1,5) have "ip = a @ [46] @ b @ [46] @ c @ [46] @ d \<and>
            lang I (Rep Digit 1 3) a \<and> lang I (Rep Digit 1 3) b \<and>
            lang I (Rep Digit 1 3) c \<and> lang I (Rep Digit 1 3) d" by simp
  then show ?thesis by blast
qed

lemma rep_digit:
  "lang I (Rep Digit lo hi) w \<Longrightarrow> lo \<le> length w \<and> length w \<le> hi \<and> list_all (is_digit I) w"
  by (simp add: in_class_Digit)

lemma digits13:
  assumes ok: "tables_ok I" and l: "lang I (Rep Digit 1 3) w"
  shows "46 \<notin> set w" "py_int I w = Some (decimal_value I w)" "w \<noteq> []" "list_all (is_digit I) w"
proof -
  from rep_digit[OF l] have d: "1 \<le> length w" "length w \<le> 3" "list_all (is_digit I) w"
    by simp_all
  from d(3) show "46 \<notin> set w"
    by (rule digits_no_char) (simp add: not_digit_special[OF ok])
  from d(1) show ne: "w \<noteq> []" by auto
  from d(2) have "length w \<le> int_max_str_digits" by (simp add: int_max_str_digits_def)
  with ok ne d(3) show "py_int I w = Some (decimal_value I w)" by (intro py_int_digits)
  from d(3) show "list_all (is_digit I) w" .
qed

lemma octet_of_part:
  assumes "tables_ok I" "lang I (Rep Digit 1 3) w"
    and "case py_int I w of None \<Rightarrow> False | Some n \<Rightarrow> 0 \<le> n \<and> n \<le> 255"
  shows "octet I w"
  using assms(3) digits13[OF assms(1,2)] by (simp add: octet_def)

lemma valid_ip_octets:
  assumes ok: "tables_ok I"
    and v: "is_valid_ip I (a @ [46] @ b @ [46] @ c @ [46] @ d)"
    and l: "lang I (Rep Digit 1 3) a" "lang I (Rep Digit 1 3) b" "lang I (Rep Digit 1 3) c"
      "lang I (Rep Digit 1 3) d"
  shows "octet I a \<and> octet I b \<and> octet I c \<and> octet I d"
proof -
  have sp: "split_on 46 (a @ [46] @ b @ [46] @ c @ [46] @ d) = [a, b, c, d]"
    using digits13(1)[OF ok l(1)] digits13(1)[OF ok l(2)] digits13(1)[OF ok l(3)]
      digits13(1)[OF ok l(4)]
    by (simp add: split_on_append split_on_none)
  from v have "list_all (\<lambda>part. case py_int I part of None \<Rightarrow> False | Some n \<Rightarrow> 0 \<le> n \<and> n \<le> 255)
      [a, b, c, d]"
    unfolding is_valid_ip_def sp by simp
  then show ?thesis using l by (simp add: octet_of_part[OF ok])
qed

lemma valid_port_text:
  assumes "tables_ok I" "is_valid_port I port" "lang I (Rep Digit 2 5) port"
  shows "port_text I port \<and> 2 \<le> length port \<and> length port \<le> 5"
proof -
  from rep_digit[OF assms(3)]
  have d: "2 \<le> length port" "length port \<le> 5" "list_all (is_digit I) port"
    by simp_all
  from d(1) have ne: "port \<noteq> []" by auto
  from d(2) have "length port \<le> int_max_str_digits" by (simp add: int_max_str_digits_def)
  with assms(1) ne d(3) have "py_int I port = Some (decimal_value I port)"
    by (intro py_int_digits)
  with assms(2) d ne show ?thesis by (auto simp: is_valid_port_def port_text_def)
qed

lemma latin1_ok: "tables_ok latin1"
  by (auto simp: tables_ok_def latin1_def split: if_splits)

section \<open>Extraction\<close>

lemma rsplit1_last: "sep \<notin> set ys \<Longrightarrow> rsplit1 sep (xs @ sep # ys) = (xs, ys)"
proof -
  assume a: "sep \<notin> set ys"
  have r: "rev (xs @ sep # ys) = rev ys @ sep # rev xs" by simp
  from a have t: "takeWhile (\<lambda>x. x \<noteq> sep) (rev ys @ sep # rev xs) = rev ys"
    by (subst takeWhile_append2) auto
  from a have d: "dropWhile (\<lambda>x. x \<noteq> sep) (rev ys @ sep # rev xs) = sep # rev xs"
    by (subst dropWhile_append2) auto
  show ?thesis unfolding rsplit1_def r t d by simp
qed

lemma arabic_indic_ok: "tables_ok arabic_indic"
  by (auto simp: tables_ok_def arabic_indic_def latin1_def split: if_splits)

lemma str_simps: "str ''.'' = [46]" "str '':'' = [58]" "str [] = []"
  by (simp_all add: str_def)

lemma basic_candidates_elem:
  assumes "cand \<in> set (basic_candidates I text)"
  shows "\<exists>ip port. cand = ip @ [58] @ port \<and> is_valid_ip I ip \<and> is_valid_port I port \<and>
           lang I ip_re ip \<and> lang I (Rep Digit 2 5) port"
proof -
  let ?F = "\<lambda>m. case m of [ip, port] \<Rightarrow>
                       if is_valid_ip I ip \<and> is_valid_port I port
                       then [ip @ str '':'' @ port] else []
                   | _ \<Rightarrow> []"
  from assms have "\<exists>m \<in> set (findall_from I proxy_pattern 2 text 0). cand \<in> set (?F m)"
    by (simp only: basic_candidates_def findall_def set_concat set_map) blast
  then obtain m where m: "m \<in> set (findall_from I proxy_pattern 2 text 0)" "cand \<in> set (?F m)"
    by blast
  from findall_from_elem[OF m(1)] obtain p q sp where
    s: "(q, sp) \<in> set (step I text proxy_pattern (p, (\<lambda>_. None)))"
       "m = [group_text text sp 1, group_text text sp 2]"
    unfolding upt_1_3 by blast
  from proxy_pattern_groups[OF s(1)]
  have l: "lang I ip_re (group_text text sp 1)" "lang I (Rep Digit 2 5) (group_text text sp 2)"
    by simp_all
  from m(2) s(2) have "cand = group_text text sp 1 @ [58] @ group_text text sp 2 \<and>
      is_valid_ip I (group_text text sp 1) \<and> is_valid_port I (group_text text sp 2)"
    by (simp add: str_simps split: if_splits)
  with l show ?thesis by blast
qed

lemma lang_proto_re:
  "lang I proto_re w \<Longrightarrow> w \<in> {str ''http'', str ''https'', str ''socks4'', str ''socks5''}"
  unfolding proto_re_def by (auto simp: lang_lit str_def)

lemma protocol_candidates_elem:
  assumes "cand \<in> set (protocol_candidates I text)"
  shows "\<exists>protocol ip port. cand = protocol @ str ''://'' @ ip @ [58] @ port \<and>
           protocol \<in> {str ''http'', str ''https'', str ''socks4'', str ''socks5''} \<and>
           is_valid_ip I ip \<and> is_valid_port I port \<and> lang I ip_re ip \<and> lang I (Rep Digit 2 5) port"
proof -
  let ?F = "\<lambda>m. case m of [protocol, ip, port] \<Rightarrow>
                       if is_valid_ip I ip \<and> is_valid_port I port
                       then [protocol @ str ''://'' @ ip @ str '':'' @ port] else []
                   | _ \<Rightarrow> []"
  from assms have "\<exists>m \<in> set (findall_from I protocol_pattern 3 text 0). cand \<in> set (?F m)"
    by (simp only: protocol_candidates_def findall_def set_concat set_map) blast
  then obtain m where m: "m \<in> set (findall_from I protocol_pattern 3 text 0)" "cand \<in> set (?F m)"
    by blast
  from findall_from_elem[OF m(1)] obtain p q sp where
    s: "(q, sp) \<in> set (step I text protocol_pattern (p, (\<lambda>_. None)))"
       "m = [group_text text sp 1, group_text text sp 2, group_text text sp 3]"
    unfolding upt_1_4 by blast
  from protocol_pattern_groups[OF s(1)]
  have l: "lang I proto_re (group_text text sp 1)" "lang I ip_re (group_text text sp 2)"
    "lang I (Rep Digit 2 5) (group_text text sp 3)"
    by simp_all
  from m(2) s(2) have "cand = group_text text sp 1 @ str ''://'' @ group_text text sp 2 @ [58] @ group_text text sp 3 \<and>
      is_valid_ip I (group_text text sp 2) \<and> is_valid_port I (group_text text sp 3)"
    by (simp add: str_simps split: if_splits)
  with l lang_proto_re[OF l(1)] show ?thesis by blast
qed

lemma extract_proxies_elem:
  assumes "cand \<in> extract_proxies I text"
  shows "\<exists>prefix ip port. cand = prefix @ ip @ [58] @ port \<and>
           prefix \<in> {[], str ''http://'', str ''https://'', str ''socks4://'', str ''socks5://''} \<and>
           is_valid_ip I ip \<and> is_valid_port I port \<and> lang I ip_re ip \<and> lang I (Rep Digit 2 5) port"
proof -
  from assms consider "cand \<in> set (protocol_candidates I text)" | "cand \<in> set (basic_candidates I text)"
    by (auto simp: extract_proxies_def)
  then show ?thesis
  proof cases
    case 1
    from protocol_candidates_elem[OF 1] obtain protocol ip port where
      p: "cand = (protocol @ str ''://'') @ ip @ [58] @ port"
         "protocol \<in> {str ''http'', str ''https'', str ''socks4'', str ''socks5''}"
         "is_valid_ip I ip \<and> is_valid_port I port \<and> lang I ip_re ip \<and> lang I (Rep Digit 2 5) port"
      by auto
    from p(2) have "protocol @ str ''://'' \<in>
        {[], str ''http://'', str ''https://'', str ''socks4://'', str ''socks5://''}"
      by (auto simp: str_def)
    with p(1,3) show ?thesis by blast
  next
    case 2
    from basic_candidates_elem[OF 2] obtain ip port where
      "cand = [] @ ip @ [58] @ port"
      "is_valid_ip I ip \<and> is_valid_port I port \<and> lang I ip_re ip \<and> lang I (Rep Digit 2 5) port"
      by auto
    then show ?thesis by blast
  qed
qed

lemma scrape_from_url_subset:
  "cand \<in> scrape_from_url I f \<Longrightarrow> \<exists>src. f = Fetched 200 src \<and> cand \<in> extract_proxies I src"
  by (auto simp: scrape_from_url_def split: fetch.splits if_splits)

text \<open>
  Claim C8. For every table of the interpreter and every outcome of the fetch, so for every
  source text, every candidate that \<open>_scrape_from_url\<close> puts into its output set is an
  optional protocol prefix followed by four dot-separated texts of decimal digits, each
  denoting a number between 0 and 255, a colon, and a text of decimal digits denoting a
  number between 1 and 65535; the address and the port pass \<open>_is_valid_ip\<close> and
  \<open>_is_valid_port\<close>. A match that fails either validation is dropped and nothing is raised.
\<close>

theorem extracted_candidates_valid:
  assumes "tables_ok I" "cand \<in> scrape_from_url I f"
  shows "\<exists>prefix a b c d port.
           cand = prefix @ a @ str ''.'' @ b @ str ''.'' @ c @ str ''.'' @ d @ str '':'' @ port \<and>
           prefix \<in> {[], str ''http://'', str ''https://'', str ''socks4://'', str ''socks5://''} \<and>
           octet I a \<and> octet I b \<and> octet I c \<and> octet I d \<and> port_text I port \<and>
           is_valid_ip I (a @ str ''.'' @ b @ str ''.'' @ c @ str ''.'' @ d) \<and> is_valid_port I port"
proof -
  from scrape_from_url_subset[OF assms(2)] obtain src where "cand \<in> extract_proxies I src" by blast
  from extract_proxies_elem[OF this] obtain prefix ip port where
    e: "cand = prefix @ ip @ [58] @ port"
       "prefix \<in> {[], str ''http://'', str ''https://'', str ''socks4://'', str ''socks5://''}"
       "is_valid_ip I ip" "is_valid_port I port" "lang I ip_re ip" "lang I (Rep Digit 2 5) port"
    by blast
  from lang_ip_re[OF e(5)] obtain a b c d where
    q: "ip = a @ [46] @ b @ [46] @ c @ [46] @ d"
       "lang I (Rep Digit 1 3) a" "lang I (Rep Digit 1 3) b" "lang I (Rep Digit 1 3) c"
       "lang I (Rep Digit 1 3) d"
    by blast
  from valid_ip_octets[OF assms(1) e(3)[unfolded q(1)] q(2-5)]
  have o: "octet I a \<and> octet I b \<and> octet I c \<and> octet I d" .
  from valid_port_text[OF assms(1) e(4) e(6)] have p: "port_text I port" by simp
  from e(1) q(1) have "cand = prefix @ a @ [46] @ b @ [46] @ c @ [46] @ d @ [58] @ port" by simp
  with e(2) o p e(3)[unfolded q(1)] e(4) show ?thesis unfolding str_simps by blast
qed

theorem extracted_candidates_valid_witness:
  "tables_ok arabic_indic \<and>
   [1633, 46, 1634, 46, 1635, 46, 1636, 58, 1640, 1632, 1640, 1632] \<in>
     scrape_from_url arabic_indic
       (Fetched 200 (str ''ip '' @ [1633, 46, 1634, 46, 1635, 46, 1636, 58, 1640, 1632, 1640, 1632])) \<and>
   (\<exists>prefix a b c d port.
      [1633, 46, 1634, 46, 1635, 46, 1636, 58, 1640, 1632, 1640, 1632] =
        prefix @ a @ str ''.'' @ b @ str ''.'' @ c @ str ''.'' @ d @ str '':'' @ port \<and>
      prefix \<in> {[], str ''http://'', str ''https://'', str ''socks4://'', str ''socks5://''} \<and>
      octet arabic_indic a \<and> octet arabic_indic b \<and> octet arabic_indic c \<and>
      octet arabic_indic d \<and> port_text arabic_indic port \<and>
      is_valid_ip arabic_indic (a @ str ''.'' @ b @ str ''.'' @ c @ str ''.'' @ d) \<and>
      is_valid_port arabic_indic port)"
proof -
  have m: "[1633, 46, 1634, 46, 1635, 46, 1636, 58, 1640, 1632, 1640, 1632] \<in>
     scrape_from_url arabic_indic
       (Fetched 200 (str ''ip '' @ [1633, 46, 1634, 46, 1635, 46, 1636, 58, 1640, 1632, 1640, 1632]))"
    by code_simp
  from extracted_candidates_valid[OF arabic_indic_ok m] m arabic_indic_ok show ?thesis by blast
qed

text \<open>
  Claim C10, as amended. For every source text, the port of every extracted candidate, read
  as \<open>_parse_proxy\<close> reads it (the text after the last colon), consists of two to five
  decimal digits. So no candidate whose port is written with a single digit is extracted; a
  port number from 1 to 9 can still be extracted when the source writes it with leading
  zeros.
\<close>

theorem extracted_port_has_two_to_five_digits:
  assumes "tables_ok I" "cand \<in> scrape_from_url I f"
  shows "list_all (is_digit I) (snd (rsplit1 58 cand)) \<and>
         2 \<le> length (snd (rsplit1 58 cand)) \<and> length (snd (rsplit1 58 cand)) \<le> 5"
proof -
  from scrape_from_url_subset[OF assms(2)] obtain src where "cand \<in> extract_proxies I src" by blast
  from extract_proxies_elem[OF this] obtain prefix ip port where
    e: "cand = (prefix @ ip) @ 58 # port" "lang I (Rep Digit 2 5) port"
    by auto
  from rep_digit[OF e(2)] have d: "2 \<le> length port" "length port \<le> 5" "list_all (is_digit I) port"
    by simp_all
  from d(3) have "58 \<notin> set port"
    by (rule digits_no_char) (simp add: not_digit_special[OF assms(1)])
  then have "rsplit1 58 cand = (prefix @ ip, port)"
    unfolding e(1) by (rule rsplit1_last)
  with d show ?thesis by simp
qed

theorem extracted_port_has_two_to_five_digits_witness:
  "tables_ok latin1 \<and>
   str ''1.2.3.4:01'' \<in> scrape_from_url latin1 (Fetched 200 (str ''1.2.3.4:01'')) \<and>
   list_all (is_digit latin1) (snd (rsplit1 58 (str ''1.2.3.4:01''))) \<and>
   2 \<le> length (snd (rsplit1 58 (str ''1.2.3.4:01''))) \<and>
   length (snd (rsplit1 58 (str ''1.2.3.4:01''))) \<le> 5"
proof -
  have m: "str ''1.2.3.4:01'' \<in> scrape_from_url latin1 (Fetched 200 (str ''1.2.3.4:01''))"
    by code_simp
  from extracted_port_has_two_to_five_digits[OF latin1_ok m] m latin1_ok show ?thesis by blast
qed

text \<open>
  Claim C10 as stated fails: the source text \<open>1.2.3.4:01\<close> yields the candidate
  \<open>1.2.3.4:01\<close>, whose port the validator and \<open>_parse_proxy\<close> both read as the number 1.
\<close>

theorem single_digit_port_counterexample:
  "str ''1.2.3.4:01'' \<in> scrape_from_url latin1 (Fetched 200 (str ''1.2.3.4:01'')) \<and>
   py_int latin1 (str ''01'') = Some 1 \<and> is_valid_port latin1 (str ''01'') \<and>
   snd (snd (snd (parse_proxy latin1 (str ''1.2.3.4:01'')))) = 1"
  by code_simp

lemma scrape_ok: "scrape_from_url I (Fetched 200 t) = extract_proxies I t"
  by (simp add: scrape_from_url_def)

lemma scenario_A:
  "extract_proxies latin1
     (str ''proxy list: 1.2.3.4:8080 http://5.6.7.8:3128 bad:port 999.1.1.1:80'') =
     {str ''1.2.3.4:8080'', str ''http://5.6.7.8:3128'', str ''5.6.7.8:3128''}"
  by code_simp

lemma leading_zero: "str ''1.2.3.4:01'' \<in> scrape_from_url latin1 (Fetched 200 (str ''1.2.3.4:01''))"
  by code_simp

text \<open>
  Claim C2, as amended. On the text of scenario A, fetched with status 200, extraction yields
  exactly three candidates: \<open>1.2.3.4:8080\<close>, \<open>http://5.6.7.8:3128\<close> and the bare
  \<open>5.6.7.8:3128\<close>, which the second pattern finds inside the protocol-qualified token. The
  set is a set of strings, so the two spellings of one address are two members. The tokens
  \<open>bad:port\<close> and \<open>999.1.1.1:80\<close> are rejected.
\<close>

theorem scenario_A_extraction:
  "scrape_from_url latin1
     (Fetched 200 (str ''proxy list: 1.2.3.4:8080 http://5.6.7.8:3128 bad:port 999.1.1.1:80'')) =
   {str ''1.2.3.4:8080'', str ''http://5.6.7.8:3128'', str ''5.6.7.8:3128''}"
  by (simp only: scrape_ok scenario_A)

text \<open>
  Claim C2 as stated fails: the output is not the two-element set, because the bare match
  \<open>5.6.7.8:3128\<close> is a member of it.
\<close>

theorem scenario_A_counterexample:
  "scrape_from_url latin1
     (Fetched 200 (str ''proxy list: 1.2.3.4:8080 http://5.6.7.8:3128 bad:port 999.1.1.1:80'')) \<noteq>
   {str ''1.2.3.4:8080'', str ''http://5.6.7.8:3128''} \<and>
   str ''5.6.7.8:3128'' \<in> scrape_from_url latin1
     (Fetched 200 (str ''proxy list: 1.2.3.4:8080 http://5.6.7.8:3128 bad:port 999.1.1.1:80''))"
proof -
  have m: "str ''5.6.7.8:3128'' \<in> scrape_from_url latin1
     (Fetched 200 (str ''proxy list: 1.2.3.4:8080 http://5.6.7.8:3128 bad:port 999.1.1.1:80''))"
    unfolding scrape_ok scenario_A by (intro insertI1 insertI2)
  have n: "str ''5.6.7.8:3128'' \<notin> {str ''1.2.3.4:8080'', str ''http://5.6.7.8:3128''}"
    by (simp add: str_def)
  from m n show ?thesis by metis
qed

section \<open>The candidate parser of the thorough checker\<close>

lemma show_nat_small: "n < 10 \<Longrightarrow> show_nat n = [48 + n]"
  by (simp add: show_nat.simps)

lemma show_nat_big: "\<not> n < 10 \<Longrightarrow> show_nat n = show_nat (n div 10) @ [48 + n mod 10]"
  by (subst show_nat.simps) simp

lemma show_int_8080: "show_int 8080 = str ''8080''"
  by (simp add: show_int_def show_nat_small show_nat_big str_def)

lemma split_protocol_plain:
  "\<not> contains (str ''://'') q \<Longrightarrow> split_protocol I q = (str ''http'', q)"
  by (cases "split_first (str ''://'') q") (simp_all add: contains_def split_protocol_def)

lemma split_host_port_no_colon: "58 \<notin> set hp \<Longrightarrow> split_host_port I hp = (hp, 8080)"
  by (simp add: split_host_port_def)

lemma split_host_port_bad_port:
  "58 \<in> set hq \<Longrightarrow> py_int I (snd (rsplit1 58 hq)) = None \<Longrightarrow>
     split_host_port I hq = (fst (rsplit1 58 hq), 8080)"
  by (cases "rsplit1 58 hq") (simp add: split_host_port_def)

lemma split_host_port_good_port:
  "58 \<in> set hq \<Longrightarrow> py_int I (snd (rsplit1 58 hq)) = Some n \<Longrightarrow>
     split_host_port I hq = (fst (rsplit1 58 hq), n)"
  by (cases "rsplit1 58 hq") (simp add: split_host_port_def)

lemma parse_proxy_parts:
  "parse_proxy I p =
     (fst (split_protocol I (strip I p)) @ str ''://'' @
        fst (split_host_port I (snd (split_protocol I (strip I p)))) @ str '':'' @
        show_int (snd (split_host_port I (snd (split_protocol I (strip I p))))),
      fst (split_protocol I (strip I p)),
      fst (split_host_port I (snd (split_protocol I (strip I p)))),
      snd (split_host_port I (snd (split_protocol I (strip I p)))))"
  by (simp add: parse_proxy_def split: prod.splits)

lemma test_protocol_proxy: "proxy (test_protocol I ip net r pr) = proxy r"
  by (simp add: test_protocol_def split: probe.splits sum.splits)

lemma foldl_test_protocol_proxy: "proxy (foldl (test_protocol I ip net) r prs) = proxy r"
  by (induction prs arbitrary: r) (simp_all add: test_protocol_proxy)

lemma check_proxy_result_identity:
  "parse_proxy I p = (url, protocol, host, port) \<Longrightarrow>
     proxy (check_proxy_result I ip net p) = host @ str '':'' @ show_int port"
  by (simp add: check_proxy_result_def foldl_test_protocol_proxy)

lemma parse_proxy_protocol: "fst (snd (parse_proxy I p)) = fst (split_protocol I (strip I p))"
  by (subst parse_proxy_parts) simp

lemma parse_proxy_host_port:
  "snd (snd (parse_proxy I p)) = split_host_port I (snd (split_protocol I (strip I p)))"
  by (subst parse_proxy_parts) simp

lemma parse_proxy_url:
  "fst (parse_proxy I p) =
     fst (snd (parse_proxy I p)) @ str ''://'' @ fst (snd (snd (parse_proxy I p))) @ str '':'' @
     show_int (snd (snd (snd (parse_proxy I p))))"
  by (subst (1 2 3 4) parse_proxy_parts) simp

lemma check_proxy_result_proxy:
  "proxy (check_proxy_result I ip net p) =
     fst (snd (snd (parse_proxy I p))) @ str '':'' @ show_int (snd (snd (snd (parse_proxy I p))))"
proof -
  obtain url protocol host port where pp: "parse_proxy I p = (url, protocol, host, port)"
    by (cases "parse_proxy I p") auto
  from check_proxy_result_identity[OF pp] pp show ?thesis by simp
qed

text \<open>
  Claim C9. \<open>_parse_proxy\<close> is a total function of its input. An input that, once stripped,
  has no \<open>://\<close> gets the protocol \<open>http\<close> and is itself the host-and-port part. A
  host-and-port part without a colon is the host, with port 8080; one whose text after the
  last colon \<open>int()\<close> rejects gets the port 8080 and the text before that colon as host;
  otherwise the port is the integer read. The identity that \<open>_check_proxy\<close> reports is
  always the host, a colon and the port so obtained.
\<close>

theorem parse_proxy_defaults:
  "(\<not> contains (str ''://'') (strip I p) \<longrightarrow>
      fst (snd (parse_proxy I p)) = str ''http'' \<and>
      snd (snd (parse_proxy I p)) = split_host_port I (strip I p)) \<and>
   (58 \<notin> set hp \<longrightarrow> split_host_port I hp = (hp, 8080)) \<and>
   (58 \<in> set hp \<and> py_int I (snd (rsplit1 58 hp)) = None \<longrightarrow>
      split_host_port I hp = (fst (rsplit1 58 hp), 8080)) \<and>
   (58 \<in> set hp \<and> py_int I (snd (rsplit1 58 hp)) = Some n \<longrightarrow>
      split_host_port I hp = (fst (rsplit1 58 hp), n)) \<and>
   snd (snd (parse_proxy I p)) = split_host_port I (snd (split_protocol I (strip I p))) \<and>
   fst (parse_proxy I p) =
     fst (snd (parse_proxy I p)) @ str ''://'' @ fst (snd (snd (parse_proxy I p))) @ str '':'' @
     show_int (snd (snd (snd (parse_proxy I p)))) \<and>
   proxy (check_proxy_result I ip net p) =
     fst (snd (snd (parse_proxy I p))) @ str '':'' @ show_int (snd (snd (snd (parse_proxy I p))))"
proof -
  have a: "\<not> contains (str ''://'') (strip I p) \<longrightarrow>
      fst (snd (parse_proxy I p)) = str ''http'' \<and>
      snd (snd (parse_proxy I p)) = split_host_port I (strip I p)"
    by (simp add: parse_proxy_protocol parse_proxy_host_port split_protocol_plain)
  from a split_host_port_no_colon[of hp I] split_host_port_bad_port[of hp I]
    split_host_port_good_port[of hp I n] parse_proxy_host_port[of I p] parse_proxy_url[of I p]
    check_proxy_result_proxy[of I ip net p]
  show ?thesis by blast
qed

lemma strip_example: "strip latin1 (str '' 1.2.3.4 '') = str ''1.2.3.4''"
  by code_simp

lemma strip_example2: "strip latin1 (str ''1.2.3.4:http'') = str ''1.2.3.4:http''"
  by code_simp

lemma no_scheme_example:
  "\<not> contains (str ''://'') (str ''1.2.3.4'')" "\<not> contains (str ''://'') (str ''1.2.3.4:http'')"
  by code_simp+

lemma bad_port_example:
  "58 \<in> set (str ''1.2.3.4:http'') \<and> py_int latin1 (snd (rsplit1 58 (str ''1.2.3.4:http''))) = None
   \<and> fst (rsplit1 58 (str ''1.2.3.4:http'')) = str ''1.2.3.4''"
  by code_simp

lemma good_port_example:
  "58 \<in> set (str ''1.2.3.4:3128'') \<and> py_int latin1 (snd (rsplit1 58 (str ''1.2.3.4:3128''))) = Some 3128
   \<and> fst (rsplit1 58 (str ''1.2.3.4:3128'')) = str ''1.2.3.4''"
  by code_simp

lemma no_colon_example: "58 \<notin> set (str ''1.2.3.4'')"
  by code_simp

theorem parse_proxy_defaults_witness:
  "\<not> contains (str ''://'') (strip latin1 (str '' 1.2.3.4 '')) \<and>
   58 \<notin> set (str ''1.2.3.4'') \<and>
   parse_proxy latin1 (str '' 1.2.3.4 '') =
     (str ''http://1.2.3.4:8080'', str ''http'', str ''1.2.3.4'', 8080) \<and>
   proxy (check_proxy_result latin1 None (\<lambda>protocol. Raised TimeoutError) (str '' 1.2.3.4 '')) =
     str ''1.2.3.4:8080'' \<and>
   \<not> contains (str ''://'') (strip latin1 (str ''1.2.3.4:http'')) \<and>
   58 \<in> set (str ''1.2.3.4:http'') \<and> py_int latin1 (snd (rsplit1 58 (str ''1.2.3.4:http''))) = None \<and>
   snd (parse_proxy latin1 (str ''1.2.3.4:http'')) = (str ''http'', str ''1.2.3.4'', 8080) \<and>
   58 \<in> set (str ''1.2.3.4:3128'') \<and>
   py_int latin1 (snd (rsplit1 58 (str ''1.2.3.4:3128''))) = Some 3128 \<and>
   split_host_port latin1 (str ''1.2.3.4:3128'') = (str ''1.2.3.4'', 3128)"
proof -
  note t1 = parse_proxy_defaults[of latin1 "str '' 1.2.3.4 ''" "str ''1.2.3.4''" 0 None
      "\<lambda>protocol. Raised TimeoutError", unfolded strip_example]
  note t2 = parse_proxy_defaults[of latin1 "str ''1.2.3.4:http''" "str ''1.2.3.4:http''" 0 None
      "\<lambda>protocol. Raised TimeoutError", unfolded strip_example2]
  note t3 = parse_proxy_defaults[of latin1 "str ''1.2.3.4:http''" "str ''1.2.3.4:3128''" 3128 None
      "\<lambda>protocol. Raised TimeoutError"]
  from t1 no_scheme_example(1) no_colon_example
  have 1: "fst (snd (parse_proxy latin1 (str '' 1.2.3.4 ''))) = str ''http''"
    "snd (snd (parse_proxy latin1 (str '' 1.2.3.4 ''))) = (str ''1.2.3.4'', 8080)"
    by simp_all
  from t1 1 have 2: "fst (parse_proxy latin1 (str '' 1.2.3.4 '')) = str ''http://1.2.3.4:8080''"
    "proxy (check_proxy_result latin1 None (\<lambda>protocol. Raised TimeoutError) (str '' 1.2.3.4 '')) =
      str ''1.2.3.4:8080''"
    by (simp_all add: show_int_8080) (simp_all add: str_def)
  from 1 2 have 3: "parse_proxy latin1 (str '' 1.2.3.4 '') =
     (str ''http://1.2.3.4:8080'', str ''http'', str ''1.2.3.4'', 8080)"
    by (cases "parse_proxy latin1 (str '' 1.2.3.4 '')") simp
  from t2 no_scheme_example(2) bad_port_example
  have 4: "snd (parse_proxy latin1 (str ''1.2.3.4:http'')) = (str ''http'', str ''1.2.3.4'', 8080)"
    by (cases "parse_proxy latin1 (str ''1.2.3.4:http'')") simp
  from t3 good_port_example
  have 5: "split_host_port latin1 (str ''1.2.3.4:3128'') = (str ''1.2.3.4'', 3128)"
    by simp
  show ?thesis
    unfolding strip_example strip_example2
    using no_scheme_example no_colon_example bad_port_example good_port_example 2(2) 3 4 5 by blast
qed

section \<open>Probes of the thorough checker\<close>

lemma test_protocol_fail:
  assumes "\<not> thorough_probe_succeeds (net pr)"
  shows "test_protocol I ip net r pr = r"
proof (cases "net pr")
  case (Raised e)
  then show ?thesis by (simp add: test_protocol_def)
next
  case (Responded resp elapsed)
  with assms show ?thesis
    by (cases "body resp") (auto simp add: test_protocol_def thorough_probe_succeeds_def)
qed

lemma test_protocol_success:
  assumes "thorough_probe_succeeds (net pr)"
  shows "working (test_protocol I ip net r pr)"
    "protocols (test_protocol I ip net r pr) = protocols r @ [pr]"
    "response_time (test_protocol I ip net r pr) = Some (round3 I (latency (net pr)))"
proof -
  from assms obtain resp elapsed where n: "net pr = Responded resp elapsed"
    by (cases "net pr") (simp_all add: thorough_probe_succeeds_def)
  from assms n have st: "status resp = 200"
    by (simp add: thorough_probe_succeeds_def)
  from assms n obtain response_text where b: "body resp = Inr response_text"
    by (cases "body resp") (simp_all add: thorough_probe_succeeds_def)
  show "working (test_protocol I ip net r pr)"
    by (simp add: test_protocol_def n st b)
  show "protocols (test_protocol I ip net r pr) = protocols r @ [pr]"
    by (simp add: test_protocol_def n st b)
  show "response_time (test_protocol I ip net r pr) = Some (round3 I (latency (net pr)))"
    by (simp add: test_protocol_def n st b latency_def)
qed


lemma foldl_test_protocol_protocols:
  "protocols (foldl (test_protocol I ip net) r prs) =
     protocols r @ filter (\<lambda>pr. thorough_probe_succeeds (net pr)) prs"
proof (induction prs rule: rev_induct)
  case Nil
  show ?case by simp
next
  case (snoc pr prs)
  show ?case
  proof (cases "thorough_probe_succeeds (net pr)")
    case True
    from test_protocol_success(2)[where net=net and pr=pr, OF True] snoc True
    show ?thesis by simp
  next
    case False
    from test_protocol_fail[where net=net and pr=pr, OF False] snoc False
    show ?thesis by simp
  qed
qed

lemma foldl_test_protocol_working:
  "working (foldl (test_protocol I ip net) r prs) =
     (working r \<or> filter (\<lambda>pr. thorough_probe_succeeds (net pr)) prs \<noteq> [])"
proof (induction prs rule: rev_induct)
  case Nil
  show ?case by simp
next
  case (snoc pr prs)
  show ?case
  proof (cases "thorough_probe_succeeds (net pr)")
    case True
    from test_protocol_success(1)[where net=net and pr=pr, OF True] True
    show ?thesis by simp
  next
    case False
    from test_protocol_fail[where net=net and pr=pr, OF False] snoc False
    show ?thesis by simp
  qed
qed

lemma foldl_test_protocol_response_time:
  "response_time (foldl (test_protocol I ip net) r prs) =
     (case rev (filter (\<lambda>pr. thorough_probe_succeeds (net pr)) prs) of
        [] \<Rightarrow> response_time r
      | pr # _ \<Rightarrow> Some (round3 I (latency (net pr))))"
proof (induction prs rule: rev_induct)
  case Nil
  show ?case by simp
next
  case (snoc pr prs)
  show ?case
  proof (cases "thorough_probe_succeeds (net pr)")
    case True
    from test_protocol_success(3)[where net=net and pr=pr, OF True] True
    show ?thesis by simp
  next
    case False
    from test_protocol_fail[where net=net and pr=pr, OF False] snoc False
    show ?thesis by simp
  qed
qed

lemma check_proxy_result_fields:
  assumes "parse_proxy I p = (url, detected, host, port)"
  shows "protocols (check_proxy_result I ip net p) =
           filter (\<lambda>pr. thorough_probe_succeeds (net pr)) (protocols_to_test detected)"
    and "working (check_proxy_result I ip net p) =
           (filter (\<lambda>pr. thorough_probe_succeeds (net pr)) (protocols_to_test detected) \<noteq> [])"
    and "response_time (check_proxy_result I ip net p) =
           (case rev (filter (\<lambda>pr. thorough_probe_succeeds (net pr)) (protocols_to_test detected)) of
              [] \<Rightarrow> None
            | pr # _ \<Rightarrow> Some (round3 I (latency (net pr))))"
  using assms
  by (simp_all add: check_proxy_result_def foldl_test_protocol_protocols
        foldl_test_protocol_working foldl_test_protocol_response_time split: list.splits)

lemma protocols_to_test_cases:
  "protocols_to_test d =
     (if d = str ''socks4'' \<or> d = str ''socks5'' then [d]
      else if d = str ''https'' then [str ''https'', str ''http''] else [str ''http'', str ''https''])"
  by (simp add: protocols_to_test_def)

lemma length_protocols_to_test: "length (protocols_to_test d) \<le> 2"
  by (simp add: protocols_to_test_def)

lemma check_proxy_result_protocols:
  "protocols (check_proxy_result I ip net p) =
     filter (\<lambda>pr. thorough_probe_succeeds (net pr)) (protocols_to_test (fst (snd (parse_proxy I p))))"
proof -
  obtain url detected host port where pp: "parse_proxy I p = (url, detected, host, port)"
    by (cases "parse_proxy I p") auto
  from check_proxy_result_fields(1)[OF pp] pp show ?thesis by simp
qed

lemma check_proxy_result_working:
  "working (check_proxy_result I ip net p) =
     (filter (\<lambda>pr. thorough_probe_succeeds (net pr)) (protocols_to_test (fst (snd (parse_proxy I p)))) \<noteq> [])"
proof -
  obtain url detected host port where pp: "parse_proxy I p = (url, detected, host, port)"
    by (cases "parse_proxy I p") auto
  from check_proxy_result_fields(2)[OF pp] pp show ?thesis by simp
qed

lemma check_proxy_result_response_time:
  "response_time (check_proxy_result I ip net p) =
     (case rev (filter (\<lambda>pr. thorough_probe_succeeds (net pr))
                  (protocols_to_test (fst (snd (parse_proxy I p))))) of
        [] \<Rightarrow> None
      | pr # _ \<Rightarrow> Some (round3 I (latency (net pr))))"
proof -
  obtain url detected host port where pp: "parse_proxy I p = (url, detected, host, port)"
    by (cases "parse_proxy I p") auto
  from check_proxy_result_fields(3)[OF pp] pp show ?thesis by simp
qed

lemma thorough_probe_succeeds_simps:
  "thorough_probe_succeeds (Raised e) = False"
  "thorough_probe_succeeds (Responded resp t) = (status resp = 200 \<and> (\<exists>response_text. body resp = Inr response_text))"
  by (cases "body resp"; simp add: thorough_probe_succeeds_def)+

lemma fast_probe_succeeds_simps:
  "fast_probe_succeeds (Raised e) = False"
  "fast_probe_succeeds (Responded resp t) = (status resp \<in> {200, 204, 301, 302} \<and> 0 < t)"
  by (simp_all add: fast_probe_succeeds_def)

section \<open>Probes of the fast checker\<close>

lemma collect_eq:
  "collect xs (r, ts) =
     (r\<lparr>protocols := protocols r @ map fst (filter hit xs)\<rparr>,
      ts @ map (\<lambda>x. the (snd x)) (filter hit xs))"
proof (induction xs arbitrary: r ts)
  case Nil
  show ?case by simp
next
  case (Cons x xs)
  obtain name res where x: "x = (name, res)" by (cases x)
  show ?case
  proof (cases res)
    case None
    then show ?thesis unfolding x using Cons[of r ts] by (simp add: hit_def)
  next
    case (Some t)
    show ?thesis
    proof (cases "0 < t")
      case True
      with Some show ?thesis
        unfolding x using Cons[of "r\<lparr>protocols := protocols r @ [name]\<rparr>" "ts @ [t]"]
        by (simp add: hit_def)
    next
      case False
      with Some show ?thesis unfolding x using Cons[of r ts] by (simp add: hit_def)
    qed
  qed
qed

lemma zip_names: "zip protocol_names (map f (quick_tasks fm)) = map (\<lambda>n. (n, f n)) (quick_tasks fm)"
  by (cases fm) (simp_all add: protocol_names_def quick_tasks_def)

lemma hit_quick: "hit (n, quick_check pr) = fast_probe_succeeds pr"
  by (cases pr) (simp_all add: hit_def quick_check_def fast_probe_succeeds_def)

lemma filter_hit_tasks:
  "map fst (filter hit (map (\<lambda>n. (n, quick_check (net n))) ns)) =
     filter (\<lambda>n. fast_probe_succeeds (net n)) ns"
  by (induction ns) (simp_all add: hit_quick)


lemma collect_tasks:
  "collect (zip protocol_names (map (\<lambda>name. quick_check (net name)) (quick_tasks fm))) (r, []) =
     (r\<lparr>protocols := protocols r @ filter (\<lambda>n. fast_probe_succeeds (net n)) (quick_tasks fm)\<rparr>,
      map (\<lambda>x. the (snd x))
        (filter hit (map (\<lambda>n. (n, quick_check (net n))) (quick_tasks fm))))"
  by (simp only: zip_names collect_eq filter_hit_tasks append_Nil)

lemma hits_empty:
  "(filter hit (map (\<lambda>n. (n, quick_check (net n))) ns) = []) =
   (filter (\<lambda>n. fast_probe_succeeds (net n)) ns = [])"
proof -
  have "(filter hit (map (\<lambda>n. (n, quick_check (net n))) ns) = []) =
        (map fst (filter hit (map (\<lambda>n. (n, quick_check (net n))) ns)) = [])"
    by (simp only: map_is_Nil_conv)
  then show ?thesis by (simp only: filter_hit_tasks)
qed

lemma parallel_check_result_protocols:
  "protocols (parallel_check_result fm net p) =
     filter (\<lambda>n. fast_probe_succeeds (net n)) (quick_tasks fm)"
  unfolding parallel_check_result_def Let_def collect_tasks
  by (simp del: map_is_Nil_conv)

lemma parallel_check_result_working:
  "working (parallel_check_result fm net p) =
     (filter (\<lambda>n. fast_probe_succeeds (net n)) (quick_tasks fm) \<noteq> [])"
  unfolding parallel_check_result_def Let_def collect_tasks
  by (simp add: hits_empty)

section \<open>Results of a validation run\<close>

lemma check_proxy_some:
  "check_proxy I ip net p = Some r \<Longrightarrow> r = check_proxy_result I ip net p \<and> working r"
  by (auto simp: check_proxy_def Let_def split: if_splits)

lemma check_proxy_result_inv:
  "working (check_proxy_result I ip net p) = (protocols (check_proxy_result I ip net p) \<noteq> [])"
proof -
  obtain url detected host port where pp: "parse_proxy I p = (url, detected, host, port)"
    by (cases "parse_proxy I p") auto
  show ?thesis
    by (simp only: check_proxy_result_fields(1,2)[OF pp])
qed

lemma parallel_check_proxy_some:
  "parallel_check_proxy fm net p = Some r \<Longrightarrow> r = parallel_check_result fm net p \<and> working r"
  by (auto simp: parallel_check_proxy_def Let_def split: if_splits)

lemma parallel_check_result_inv:
  "working (parallel_check_result fm net p) = (protocols (parallel_check_result fm net p) \<noteq> [])"
  by (simp only: parallel_check_result_protocols parallel_check_result_working)

lemma append_if_present_inv:
  assumes "\<forall>k l. d k = Some l \<longrightarrow> (\<forall>r \<in> set l. P r)" "P res"
  shows "\<forall>k l. append_if_present key res d k = Some l \<longrightarrow> (\<forall>r \<in> set l. P r)"
proof (cases "d key")
  case None
  with assms show ?thesis by (simp add: append_if_present_def)
next
  case (Some l0)
  with assms show ?thesis by (auto simp add: append_if_present_def)
qed

lemma foldl_append_if_present_inv:
  assumes "\<forall>k l. d k = Some l \<longrightarrow> (\<forall>r \<in> set l. P r)" "P res"
  shows "\<forall>k l. foldl (\<lambda>d key. append_if_present key res d) d keys k = Some l \<longrightarrow> (\<forall>r \<in> set l. P r)"
  using assms
proof (induction keys arbitrary: d)
  case Nil
  then show ?case by simp
next
  case (Cons key keys)
  from append_if_present_inv[OF Cons.prems] Cons.IH[of "append_if_present key res d"] Cons.prems(2)
  show ?case by simp
qed

lemma upd_inv:
  assumes "\<forall>k l. d k = Some l \<longrightarrow> (\<forall>r \<in> set l. P r)" "\<forall>r \<in> set l0. P r"
  shows "\<forall>k l. (d(key \<mapsto> l0)) k = Some l \<longrightarrow> (\<forall>r \<in> set l. P r)"
  using assms by auto

lemma categorize_result_inv:
  assumes d: "\<forall>k l. d k = Some l \<longrightarrow> (\<forall>r \<in> set l. P r)" and res: "P res"
  shows "\<forall>k l. categorize_result res d k = Some l \<longrightarrow> (\<forall>r \<in> set l. P r)"
proof (cases "d (str ''all_working'')")
  case None
  with d show ?thesis by (simp add: categorize_result_def)
next
  case (Some l0)
  from d Some res have "\<forall>r \<in> set (l0 @ [res]). P r" by auto
  from upd_inv[OF d this]
  have 1: "\<forall>k l. (d(str ''all_working'' \<mapsto> l0 @ [res])) k = Some l \<longrightarrow> (\<forall>r \<in> set l. P r)" .
  have 2: "categorize_result res d =
             append_if_present (anonymity res) res
               (foldl (\<lambda>d key. append_if_present key res d)
                  (d(str ''all_working'' \<mapsto> l0 @ [res])) (protocols res))"
    by (simp only: categorize_result_def Some option.case)
  show ?thesis
    unfolding 2
    by (rule append_if_present_inv[OF foldl_append_if_present_inv[OF 1 res] res])
qed

lemma fast_categorize_result_inv:
  assumes d: "\<forall>k l. d k = Some l \<longrightarrow> (\<forall>r \<in> set l. P r)" and res: "P res"
  shows "\<forall>k l. fast_categorize_result res d k = Some l \<longrightarrow> (\<forall>r \<in> set l. P r)"
proof -
  let ?l0 = "case d (str ''all_working'') of None \<Rightarrow> [] | Some l \<Rightarrow> l"
  have "\<forall>r \<in> set ?l0. P r"
  proof (cases "d (str ''all_working'')")
    case None
    then show ?thesis by simp
  next
    case (Some l1)
    with d show ?thesis by auto
  qed
  with res have "\<forall>r \<in> set (?l0 @ [res]). P r" by auto
  from upd_inv[OF d this]
  have 1: "\<forall>k l. (d(str ''all_working'' \<mapsto> ?l0 @ [res])) k = Some l \<longrightarrow> (\<forall>r \<in> set l. P r)" .
  show ?thesis
    unfolding fast_categorize_result_def
    by (rule append_if_present_inv[OF foldl_append_if_present_inv[OF 1 res] res])
qed

lemma check_with_progress_inv:
  assumes "\<forall>k l. results c k = Some l \<longrightarrow> (\<forall>r \<in> set l. working r \<and> protocols r \<noteq> [])"
  shows "\<forall>k l. results (check_with_progress I net c p) k = Some l \<longrightarrow>
           (\<forall>r \<in> set l. working r \<and> protocols r \<noteq> [])"
proof (cases "check_proxy I (real_ip c) (net p) p")
  case None
  with assms show ?thesis by (simp add: check_with_progress_def)
next
  case (Some res)
  from check_proxy_some[OF Some] check_proxy_result_inv[of I "real_ip c" "net p" p]
  have "working res \<and> protocols res \<noteq> []" by blast
  from categorize_result_inv[where P="\<lambda>r. working r \<and> protocols r \<noteq> []", OF assms this] Some
  show ?thesis by (simp add: check_with_progress_def)
qed

lemma foldl_check_with_progress_inv:
  assumes "\<forall>k l. results c k = Some l \<longrightarrow> (\<forall>r \<in> set l. working r \<and> protocols r \<noteq> [])"
  shows "\<forall>k l. results (foldl (check_with_progress I net) c ps) k = Some l \<longrightarrow>
           (\<forall>r \<in> set l. working r \<and> protocols r \<noteq> [])"
  using assms
proof (induction ps arbitrary: c)
  case Nil
  then show ?case by simp
next
  case (Cons p ps)
  from Cons.IH[OF check_with_progress_inv[OF Cons.prems]] show ?case by simp
qed

lemma fast_check_with_progress_inv:
  assumes "\<forall>k l. fast_results c k = Some l \<longrightarrow> (\<forall>r \<in> set l. working r \<and> protocols r \<noteq> [])"
  shows "\<forall>k l. fast_results (fast_check_with_progress net c p) k = Some l \<longrightarrow>
           (\<forall>r \<in> set l. working r \<and> protocols r \<noteq> [])"
proof (cases "parallel_check_proxy (FAST_MODE c) (net p) p")
  case None
  with assms show ?thesis by (simp add: fast_check_with_progress_def)
next
  case (Some res)
  from parallel_check_proxy_some[OF Some] parallel_check_result_inv[of "FAST_MODE c" "net p" p]
  have "working res \<and> protocols res \<noteq> []" by blast
  from fast_categorize_result_inv[where P="\<lambda>r. working r \<and> protocols r \<noteq> []", OF assms this] Some
  show ?thesis by (simp add: fast_check_with_progress_def)
qed

lemma foldl_fast_check_with_progress_inv:
  assumes "\<forall>k l. fast_results c k = Some l \<longrightarrow> (\<forall>r \<in> set l. working r \<and> protocols r \<noteq> [])"
  shows "\<forall>k l. fast_results (foldl (fast_check_with_progress net) c ps) k = Some l \<longrightarrow>
           (\<forall>r \<in> set l. working r \<and> protocols r \<noteq> [])"
  using assms
proof (induction ps arbitrary: c)
  case Nil
  then show ?case by simp
next
  case (Cons p ps)
  from Cons.IH[OF fast_check_with_progress_inv[OF Cons.prems]] show ?case by simp
qed

lemma check_all_inv:
  assumes "proxies \<noteq> []"
  shows "\<forall>k l. fst (check_all I my_ip net c proxies) k = Some l \<longrightarrow>
           (\<forall>r \<in> set l. working r \<and> protocols r \<noteq> [])"
proof -
  let ?c1 = "c\<lparr>checked_count := 0, working_count := 0, total_count := length proxies,
                results := (\<lambda>key. map_option (\<lambda>l. []) (results c key)),
                real_ip := Some my_ip\<rparr>"
  have "\<forall>k l. results ?c1 k = Some l \<longrightarrow> (\<forall>r \<in> set l. working r \<and> protocols r \<noteq> [])"
    by auto
  from foldl_check_with_progress_inv[OF this, of I net proxies] assms
  show ?thesis by (simp add: check_all_def Let_def)
qed

lemma fast_check_all_inv:
  "\<forall>k l. fst (fast_check_all net c proxies fm) k = Some l \<longrightarrow>
           (\<forall>r \<in> set l. working r \<and> protocols r \<noteq> [])"
proof -
  let ?c1 = "c\<lparr>FAST_MODE := fm, fast_checked_count := 0, fast_working_count := 0,
                fast_total_count := length proxies, fast_results := Map.empty\<rparr>"
  have "\<forall>k l. fast_results ?c1 k = Some l \<longrightarrow> (\<forall>r \<in> set l. working r \<and> protocols r \<noteq> [])"
    by simp
  from foldl_fast_check_with_progress_inv[OF this, of net proxies]
  show ?thesis by (simp add: fast_check_all_def Let_def)
qed

lemma strip_8080: "strip latin1 (str ''1.2.3.4:8080'') = str ''1.2.3.4:8080''"
  by code_simp

lemma split_protocol_8080:
  "split_protocol latin1 (str ''1.2.3.4:8080'') = (str ''http'', str ''1.2.3.4:8080'')"
  by code_simp

lemma split_host_port_8080:
  "split_host_port latin1 (str ''1.2.3.4:8080'') = (str ''1.2.3.4'', 8080)"
  by code_simp

lemma parse_proxy_8080:
  "parse_proxy latin1 (str ''1.2.3.4:8080'') =
     (str ''http://1.2.3.4:8080'', str ''http'', str ''1.2.3.4'', 8080)"
  unfolding parse_proxy_parts strip_8080 split_protocol_8080
  by (simp add: split_host_port_8080 show_int_8080) (simp add: str_def)

lemma protocols_to_test_http: "protocols_to_test (str ''http'') = [str ''http'', str ''https'']"
  by (simp add: protocols_to_test_def str_def)

lemma round3_latin1_2: "round3 latin1 2 = 2"
  by (simp add: latin1_def round_half_even_def)

lemma append_if_present_keeps:
  assumes "d k = Some l" "res \<in> set l"
  shows "\<exists>l'. append_if_present key res2 d k = Some l' \<and> res \<in> set l'"
proof (cases "d key")
  case None
  with assms show ?thesis by (simp add: append_if_present_def)
next
  case (Some l0)
  with assms show ?thesis by (cases "k = key") (simp_all add: append_if_present_def)
qed

lemma foldl_append_if_present_keeps:
  assumes "d k = Some l" "res \<in> set l"
  shows "\<exists>l'. foldl (\<lambda>d key. append_if_present key res2 d) d keys k = Some l' \<and> res \<in> set l'"
  using assms
proof (induction keys arbitrary: d l)
  case Nil
  then show ?case by simp
next
  case (Cons key keys)
  from append_if_present_keeps[of d k l res key res2] Cons.prems obtain l1 where
    "append_if_present key res2 d k = Some l1" "res \<in> set l1" by blast
  from Cons.IH[of "append_if_present key res2 d" l1] this show ?case by simp
qed

lemma categorize_result_all_working:
  assumes "d (str ''all_working'') = Some l"
  shows "\<exists>l'. categorize_result res d (str ''all_working'') = Some l' \<and> res \<in> set l'"
proof -
  have 1: "(d(str ''all_working'' \<mapsto> l @ [res])) (str ''all_working'') = Some (l @ [res])"
    by simp
  have 2: "res \<in> set (l @ [res])" by simp
  from foldl_append_if_present_keeps[of "d(str ''all_working'' \<mapsto> l @ [res])" "str ''all_working''"
      "l @ [res]" res res "protocols res"] 1 2 obtain l1 where
    3: "foldl (\<lambda>d key. append_if_present key res d) (d(str ''all_working'' \<mapsto> l @ [res]))
          (protocols res) (str ''all_working'') = Some l1" "res \<in> set l1"
    by blast
  have 4: "categorize_result res d =
             append_if_present (anonymity res) res
               (foldl (\<lambda>d key. append_if_present key res d)
                  (d(str ''all_working'' \<mapsto> l @ [res])) (protocols res))"
    by (simp only: categorize_result_def assms option.case)
  show ?thesis
    unfolding 4 using append_if_present_keeps[of _ "str ''all_working''" l1 res "anonymity res" res] 3
    by blast
qed

lemma fast_categorize_result_all_working:
  "\<exists>l'. fast_categorize_result res d (str ''all_working'') = Some l' \<and> res \<in> set l'"
proof -
  let ?l = "(case d (str ''all_working'') of None \<Rightarrow> [] | Some l \<Rightarrow> l) @ [res]"
  have 1: "(d(str ''all_working'' \<mapsto> ?l)) (str ''all_working'') = Some ?l"
    by simp
  have 2: "res \<in> set ?l" by simp
  from foldl_append_if_present_keeps[of "d(str ''all_working'' \<mapsto> ?l)" "str ''all_working''"
      ?l res res "protocols res"] 1 2 obtain l1 where
    3: "foldl (\<lambda>d key. append_if_present key res d) (d(str ''all_working'' \<mapsto> ?l))
          (protocols res) (str ''all_working'') = Some l1" "res \<in> set l1"
    by blast
  show ?thesis
    unfolding fast_categorize_result_def
    using append_if_present_keeps[of _ "str ''all_working''" l1 res "anonymity res" res] 3
    by blast
qed

lemma new_checker_all_working: "results new_checker (str ''all_working'') = Some []"
  by (simp add: new_checker_def)

lemma check_all_single:
  assumes "check_proxy I (Some my_ip) (net p) p = Some res"
  shows "\<exists>l'. fst (check_all I my_ip net new_checker [p]) (str ''all_working'') = Some l' \<and>
           res \<in> set l'"
proof -
  let ?d = "\<lambda>key. map_option (\<lambda>l. []) (results new_checker key)"
  have "?d (str ''all_working'') = Some []"
    by (simp only: new_checker_all_working option.map)
  from categorize_result_all_working[of ?d "[]" res] this assms
  show ?thesis
    by (simp add: check_all_def check_with_progress_def Let_def)
qed

lemma fast_check_all_single:
  assumes "parallel_check_proxy fm (net p) p = Some res"
  shows "\<exists>l'. fst (fast_check_all net c [p] fm) (str ''all_working'') = Some l' \<and> res \<in> set l'"
  using fast_categorize_result_all_working[of res Map.empty] assms
  by (simp add: fast_check_all_def fast_check_with_progress_def Let_def)

lemma thorough_200:
  "thorough_probe_succeeds (Responded \<lparr>status = 200, headers = [], body = Inr []\<rparr> t)"
  by (simp add: thorough_probe_succeeds_def)

lemma thorough_204:
  "\<not> thorough_probe_succeeds (Responded \<lparr>status = 204, headers = [], body = Inr []\<rparr> t)"
  by (simp add: thorough_probe_succeeds_def)

lemma fast_204:
  "fast_probe_succeeds (Responded \<lparr>status = 204, headers = [], body = Inr []\<rparr> 1)"
  by (simp add: fast_probe_succeeds_def)

lemma fast_200:
  "fast_probe_succeeds (Responded \<lparr>status = 200, headers = [], body = Inr []\<rparr> 1)"
  by (simp add: fast_probe_succeeds_def)

lemma quick_tasks_fast: "quick_tasks True = [str ''http'', str ''https'']"
  by (simp add: quick_tasks_def)

lemma check_proxy_200:
  "check_proxy latin1 ip (\<lambda>pr. Responded \<lparr>status = 200, headers = [], body = Inr []\<rparr> 1)
     (str ''1.2.3.4:8080'') =
   Some (check_proxy_result latin1 ip
     (\<lambda>pr. Responded \<lparr>status = 200, headers = [], body = Inr []\<rparr> 1) (str ''1.2.3.4:8080''))"
  by (simp add: check_proxy_def check_proxy_result_fields(2)[OF parse_proxy_8080]
      protocols_to_test_http thorough_200)

lemma parallel_check_proxy_200:
  "parallel_check_proxy True (\<lambda>pr. Responded \<lparr>status = 200, headers = [], body = Inr []\<rparr> 1)
     (str ''1.2.3.4:8080'') =
   Some (parallel_check_result True
     (\<lambda>pr. Responded \<lparr>status = 200, headers = [], body = Inr []\<rparr> 1) (str ''1.2.3.4:8080''))"
  by (simp add: parallel_check_proxy_def parallel_check_result_working quick_tasks_fast fast_200)

text \<open>
  Claim C1. In the result dictionary of \<open>_check_proxy\<close> and in that of
  \<open>_parallel_check_proxy\<close>, \<open>working\<close> is true if and only if \<open>protocols\<close> is not empty;
  every result either function returns, and every result in every bucket that a run of
  \<open>check_all\<close> over at least one candidate returns (of the fast checker: over any
  candidates), is working and has a protocol.
\<close>

theorem working_iff_protocols:
  "working (check_proxy_result I ip net p) = (protocols (check_proxy_result I ip net p) \<noteq> []) \<and>
   (\<forall>r. check_proxy I ip net p = Some r \<longrightarrow> working r \<and> protocols r \<noteq> []) \<and>
   working (parallel_check_result fm fnet q) = (protocols (parallel_check_result fm fnet q) \<noteq> []) \<and>
   (\<forall>r. parallel_check_proxy fm fnet q = Some r \<longrightarrow> working r \<and> protocols r \<noteq> []) \<and>
   (proxies \<noteq> [] \<longrightarrow>
      (\<forall>k l. fst (check_all I my_ip cnet c proxies) k = Some l \<longrightarrow>
         (\<forall>r \<in> set l. working r \<and> protocols r \<noteq> []))) \<and>
   (\<forall>k l. fst (fast_check_all cnet fc fproxies fm) k = Some l \<longrightarrow>
         (\<forall>r \<in> set l. working r \<and> protocols r \<noteq> []))"
proof -
  have a: "\<forall>r. check_proxy I ip net p = Some r \<longrightarrow> working r \<and> protocols r \<noteq> []"
    using check_proxy_some[of I ip net p] check_proxy_result_inv[of I ip net p] by auto
  have b: "\<forall>r. parallel_check_proxy fm fnet q = Some r \<longrightarrow> working r \<and> protocols r \<noteq> []"
    using parallel_check_proxy_some[of fm fnet q] parallel_check_result_inv[of fm fnet q] by auto
  from a b check_proxy_result_inv[of I ip net p] parallel_check_result_inv[of fm fnet q]
    check_all_inv[of proxies I my_ip cnet c] fast_check_all_inv[of cnet fc fproxies fm]
  show ?thesis by blast
qed

theorem working_iff_protocols_witness:
  "check_proxy latin1 (Some (str ''9.9.9.9''))
      (\<lambda>pr. Responded \<lparr>status = 200, headers = [], body = Inr []\<rparr> 1) (str ''1.2.3.4:8080'') \<noteq> None \<and>
   working (the (check_proxy latin1 (Some (str ''9.9.9.9''))
      (\<lambda>pr. Responded \<lparr>status = 200, headers = [], body = Inr []\<rparr> 1) (str ''1.2.3.4:8080''))) \<and>
   protocols (the (check_proxy latin1 (Some (str ''9.9.9.9''))
      (\<lambda>pr. Responded \<lparr>status = 200, headers = [], body = Inr []\<rparr> 1) (str ''1.2.3.4:8080''))) \<noteq> [] \<and>
   parallel_check_proxy True
      (\<lambda>pr. Responded \<lparr>status = 200, headers = [], body = Inr []\<rparr> 1) (str ''1.2.3.4:8080'') \<noteq> None \<and>
   working (the (parallel_check_proxy True
      (\<lambda>pr. Responded \<lparr>status = 200, headers = [], body = Inr []\<rparr> 1) (str ''1.2.3.4:8080''))) \<and>
   protocols (the (parallel_check_proxy True
      (\<lambda>pr. Responded \<lparr>status = 200, headers = [], body = Inr []\<rparr> 1) (str ''1.2.3.4:8080''))) \<noteq> [] \<and>
   [str ''1.2.3.4:8080''] \<noteq> [] \<and>
   (\<exists>l r. fst (check_all latin1 (str ''9.9.9.9'')
              (\<lambda>p pr. Responded \<lparr>status = 200, headers = [], body = Inr []\<rparr> 1)
              new_checker [str ''1.2.3.4:8080'']) (str ''all_working'') = Some l \<and>
          r \<in> set l \<and> working r \<and> protocols r \<noteq> []) \<and>
   (\<exists>l r. fst (fast_check_all (\<lambda>p pr. Responded \<lparr>status = 200, headers = [], body = Inr []\<rparr> 1)
              \<lparr>fast_results = Map.empty, fast_checked_count = 0, fast_total_count = 0,
               fast_working_count = 0, FAST_MODE = True\<rparr>
              [str ''1.2.3.4:8080''] True) (str ''all_working'') = Some l \<and>
          r \<in> set l \<and> working r \<and> protocols r \<noteq> [])"
proof -
  let ?n = "\<lambda>pr::pystr. Responded \<lparr>status = 200, headers = [], body = Inr []\<rparr> 1"
  let ?p = "str ''1.2.3.4:8080''"
  let ?c = "\<lparr>fast_results = Map.empty, fast_checked_count = 0, fast_total_count = 0,
             fast_working_count = 0, FAST_MODE = True\<rparr>"
  note t = working_iff_protocols[where I=latin1 and ip="Some (str ''9.9.9.9'')" and net="?n" and p="?p"
      and fm=True and fnet="?n" and q="?p" and proxies="[?p]" and my_ip="str ''9.9.9.9''"
      and cnet="\<lambda>p. ?n" and c=new_checker and fc="?c" and fproxies="[?p]"]
  note a = check_proxy_200[of "Some (str ''9.9.9.9'')"]
  note b = parallel_check_proxy_200
  from check_all_single[of latin1 "str ''9.9.9.9''" "\<lambda>p. ?n" ?p, OF a] obtain l1 where
    l1: "fst (check_all latin1 (str ''9.9.9.9'') (\<lambda>p. ?n) new_checker [?p]) (str ''all_working'') = Some l1"
        "check_proxy_result latin1 (Some (str ''9.9.9.9'')) ?n ?p \<in> set l1"
    by blast
  from fast_check_all_single[of True "\<lambda>p. ?n" ?p _ ?c, OF b] obtain l2 where
    l2: "fst (fast_check_all (\<lambda>p. ?n) ?c [?p] True) (str ''all_working'') = Some l2"
        "parallel_check_result True ?n ?p \<in> set l2"
    by blast
  have 1: "check_proxy latin1 (Some (str ''9.9.9.9'')) ?n ?p \<noteq> None" using a by simp
  have 2: "parallel_check_proxy True ?n ?p \<noteq> None" using b by simp
  from t a have 3: "working (the (check_proxy latin1 (Some (str ''9.9.9.9'')) ?n ?p)) \<and>
      protocols (the (check_proxy latin1 (Some (str ''9.9.9.9'')) ?n ?p)) \<noteq> []"
    by simp
  from t b have 4: "working (the (parallel_check_proxy True ?n ?p)) \<and>
      protocols (the (parallel_check_proxy True ?n ?p)) \<noteq> []"
    by simp
  from t l1 have 5: "\<exists>l r. fst (check_all latin1 (str ''9.9.9.9'') (\<lambda>p. ?n) new_checker [?p])
        (str ''all_working'') = Some l \<and> r \<in> set l \<and> working r \<and> protocols r \<noteq> []"
    by blast
  from t l2 have 6: "\<exists>l r. fst (fast_check_all (\<lambda>p. ?n) ?c [?p] True)
        (str ''all_working'') = Some l \<and> r \<in> set l \<and> working r \<and> protocols r \<noteq> []"
    by blast
  from 1 2 3 4 5 6 show ?thesis by simp
qed

section \<open>When a probe counts\<close>

lemma http_neq_https: "str ''https'' \<noteq> str ''http''"
  by (simp add: str_def)

text \<open>
  Claim C3, as amended. In the thorough checker a probe counts exactly when the response has
  status 200 and its body is read without an exception; it then marks the result working
  and appends its protocol, and any other outcome leaves the result as it was. In the fast
  checker a probe counts exactly when the status is 200, 204, 301 or 302 and the measured
  latency is positive. In both, the protocols of a result are the probed protocols whose
  probe counted, in the order probed, and nothing is raised.
\<close>

theorem probe_success_conditions:
  "thorough_probe_succeeds (Raised e) = False \<and>
   thorough_probe_succeeds (Responded resp t) =
     (status resp = 200 \<and> (\<exists>response_text. body resp = Inr response_text)) \<and>
   fast_probe_succeeds (Raised e) = False \<and>
   fast_probe_succeeds (Responded resp t) = (status resp \<in> {200, 204, 301, 302} \<and> 0 < t) \<and>
   (thorough_probe_succeeds (net pr) \<longrightarrow>
      working (test_protocol I ip net res pr) \<and>
      protocols (test_protocol I ip net res pr) = protocols res @ [pr]) \<and>
   (\<not> thorough_probe_succeeds (net pr) \<longrightarrow> test_protocol I ip net res pr = res) \<and>
   protocols (check_proxy_result I ip net p) =
     filter (\<lambda>pr. thorough_probe_succeeds (net pr)) (protocols_to_test (fst (snd (parse_proxy I p)))) \<and>
   working (check_proxy_result I ip net p) =
     (\<exists>pr \<in> set (protocols_to_test (fst (snd (parse_proxy I p)))). thorough_probe_succeeds (net pr)) \<and>
   protocols (parallel_check_result fm fnet q) =
     filter (\<lambda>name. fast_probe_succeeds (fnet name)) (quick_tasks fm) \<and>
   working (parallel_check_result fm fnet q) =
     (\<exists>name \<in> set (quick_tasks fm). fast_probe_succeeds (fnet name))"
proof -
  have a: "thorough_probe_succeeds (net pr) \<longrightarrow>
      working (test_protocol I ip net res pr) \<and>
      protocols (test_protocol I ip net res pr) = protocols res @ [pr]"
    using test_protocol_success(1,2)[of net pr I ip res] by blast
  have b: "\<not> thorough_probe_succeeds (net pr) \<longrightarrow> test_protocol I ip net res pr = res"
    using test_protocol_fail[of net pr I ip res] by blast
  have c: "working (check_proxy_result I ip net p) =
     (\<exists>pr \<in> set (protocols_to_test (fst (snd (parse_proxy I p)))). thorough_probe_succeeds (net pr))"
    by (simp only: check_proxy_result_working filter_empty_conv) blast
  have d: "working (parallel_check_result fm fnet q) =
     (\<exists>name \<in> set (quick_tasks fm). fast_probe_succeeds (fnet name))"
    by (simp only: parallel_check_result_working filter_empty_conv) blast
  from a b c d show ?thesis
    by (simp only: thorough_probe_succeeds_simps fast_probe_succeeds_simps
        check_proxy_result_protocols parallel_check_result_protocols simp_thms)
qed

theorem probe_success_conditions_witness:
  "thorough_probe_succeeds
     ((\<lambda>pr. if pr = str ''http'' then Responded \<lparr>status = 200, headers = [], body = Inr []\<rparr> 1
            else Raised TimeoutError) (str ''http'')) \<and>
   working (test_protocol latin1 None
     (\<lambda>pr. if pr = str ''http'' then Responded \<lparr>status = 200, headers = [], body = Inr []\<rparr> 1
           else Raised TimeoutError)
     \<lparr>proxy = str ''1.2.3.4:8080'', working = False, protocols = [], anonymity = str ''unknown'',
      response_time = None\<rparr> (str ''http'')) \<and>
   protocols (test_protocol latin1 None
     (\<lambda>pr. if pr = str ''http'' then Responded \<lparr>status = 200, headers = [], body = Inr []\<rparr> 1
           else Raised TimeoutError)
     \<lparr>proxy = str ''1.2.3.4:8080'', working = False, protocols = [], anonymity = str ''unknown'',
      response_time = None\<rparr> (str ''http'')) = [str ''http''] \<and>
   \<not> thorough_probe_succeeds
     ((\<lambda>pr. if pr = str ''http'' then Responded \<lparr>status = 200, headers = [], body = Inr []\<rparr> 1
            else Raised TimeoutError) (str ''https'')) \<and>
   test_protocol latin1 None
     (\<lambda>pr. if pr = str ''http'' then Responded \<lparr>status = 200, headers = [], body = Inr []\<rparr> 1
           else Raised TimeoutError)
     \<lparr>proxy = str ''1.2.3.4:8080'', working = False, protocols = [], anonymity = str ''unknown'',
      response_time = None\<rparr> (str ''https'') =
     \<lparr>proxy = str ''1.2.3.4:8080'', working = False, protocols = [], anonymity = str ''unknown'',
      response_time = None\<rparr> \<and>
   protocols (check_proxy_result latin1 None
     (\<lambda>pr. if pr = str ''http'' then Responded \<lparr>status = 200, headers = [], body = Inr []\<rparr> 1
           else Raised TimeoutError) (str ''1.2.3.4:8080'')) = [str ''http''] \<and>
   working (check_proxy_result latin1 None
     (\<lambda>pr. if pr = str ''http'' then Responded \<lparr>status = 200, headers = [], body = Inr []\<rparr> 1
           else Raised TimeoutError) (str ''1.2.3.4:8080'')) \<and>
   protocols (parallel_check_result True
     (\<lambda>pr. if pr = str ''http'' then Responded \<lparr>status = 200, headers = [], body = Inr []\<rparr> 1
           else Raised TimeoutError) (str ''1.2.3.4:8080'')) = [str ''http''] \<and>
   working (parallel_check_result True
     (\<lambda>pr. if pr = str ''http'' then Responded \<lparr>status = 200, headers = [], body = Inr []\<rparr> 1
           else Raised TimeoutError) (str ''1.2.3.4:8080''))"
proof -
  let ?n = "\<lambda>pr. if pr = str ''http'' then Responded \<lparr>status = 200, headers = [], body = Inr []\<rparr> 1
                 else Raised TimeoutError"
  let ?r = "\<lparr>proxy = str ''1.2.3.4:8080'', working = False, protocols = [], anonymity = str ''unknown'',
             response_time = None\<rparr>"
  let ?p = "str ''1.2.3.4:8080''"
  have s1: "thorough_probe_succeeds (?n (str ''http''))"
    by (simp add: thorough_probe_succeeds_def)
  have s2: "\<not> thorough_probe_succeeds (?n (str ''https''))"
    by (simp add: thorough_probe_succeeds_def http_neq_https)
  have f1: "fast_probe_succeeds (?n (str ''http''))"
    by (simp add: fast_probe_succeeds_def)
  have f2: "\<not> fast_probe_succeeds (?n (str ''https''))"
    by (simp add: fast_probe_succeeds_def http_neq_https)
  note t1 = probe_success_conditions[where net="?n" and pr="str ''http''" and I=latin1 and ip=None
      and res="?r" and p="?p" and fm=True and fnet="?n" and q="?p"]
  note t2 = probe_success_conditions[where net="?n" and pr="str ''https''" and I=latin1 and ip=None
      and res="?r" and p="?p" and fm=True and fnet="?n" and q="?p"]
  from t1 s1 have a: "working (test_protocol latin1 None ?n ?r (str ''http''))"
    "protocols (test_protocol latin1 None ?n ?r (str ''http'')) = [str ''http'']"
    by simp_all
  from t2 s2 have b: "test_protocol latin1 None ?n ?r (str ''https'') = ?r"
    by blast
  from t1 have c: "protocols (check_proxy_result latin1 None ?n ?p) =
      filter (\<lambda>pr. thorough_probe_succeeds (?n pr)) (protocols_to_test (fst (snd (parse_proxy latin1 ?p))))"
    by blast
  have c': "protocols (check_proxy_result latin1 None ?n ?p) = [str ''http'']"
    unfolding c parse_proxy_8080 using s1 s2 by (simp add: protocols_to_test_http)
  from t1 have d: "working (check_proxy_result latin1 None ?n ?p) =
     (\<exists>pr \<in> set (protocols_to_test (fst (snd (parse_proxy latin1 ?p)))). thorough_probe_succeeds (?n pr))"
    by blast
  have d': "working (check_proxy_result latin1 None ?n ?p)"
    unfolding d parse_proxy_8080 using s1 by (simp add: protocols_to_test_http)
  from t1 have e: "protocols (parallel_check_result True ?n ?p) =
     filter (\<lambda>name. fast_probe_succeeds (?n name)) (quick_tasks True)"
    by blast
  have e': "protocols (parallel_check_result True ?n ?p) = [str ''http'']"
    unfolding e quick_tasks_fast using f1 f2 by simp
  from t1 have g: "working (parallel_check_result True ?n ?p) =
     (\<exists>name \<in> set (quick_tasks True). fast_probe_succeeds (?n name))"
    by blast
  have g': "working (parallel_check_result True ?n ?p)"
    unfolding g quick_tasks_fast using f1 by simp
  from s1 s2 a b c' d' e' g' show ?thesis by blast
qed

text \<open>
  Claim C3 as stated fails: when every probe is answered with status 204, the thorough
  checker records no protocol and returns \<open>None\<close>, while the fast checker records both.
\<close>

theorem status_204_counterexample:
  "check_proxy latin1 None (\<lambda>pr. Responded \<lparr>status = 204, headers = [], body = Inr []\<rparr> 1)
     (str ''1.2.3.4:8080'') = None \<and>
   protocols (check_proxy_result latin1 None
     (\<lambda>pr. Responded \<lparr>status = 204, headers = [], body = Inr []\<rparr> 1) (str ''1.2.3.4:8080'')) = [] \<and>
   protocols (parallel_check_result True
     (\<lambda>pr. Responded \<lparr>status = 204, headers = [], body = Inr []\<rparr> 1) (str ''1.2.3.4:8080'')) =
     [str ''http'', str ''https'']"
  by (simp add: check_proxy_def check_proxy_result_fields(1,2)[OF parse_proxy_8080]
      protocols_to_test_http thorough_204 parallel_check_result_protocols quick_tasks_fast fast_204)

text \<open>
  Claim C7, as amended. The thorough checker probes the declared protocol alone when it is
  \<open>socks4\<close> or \<open>socks5\<close>, \<open>https\<close> then \<open>http\<close> when \<open>https\<close> is declared, and \<open>http\<close> then
  \<open>https\<close> otherwise. It probes every protocol of that list, whether or not an earlier one
  succeeded: the result records every protocol whose probe succeeded, in that order (at
  most two), and \<open>response_time\<close> is the rounded latency of the last success.
\<close>

theorem thorough_probes_every_protocol:
  "protocols_to_test d =
     (if d = str ''socks4'' \<or> d = str ''socks5'' then [d]
      else if d = str ''https'' then [str ''https'', str ''http'']
      else [str ''http'', str ''https'']) \<and>
   protocols (check_proxy_result I ip net p) =
     filter (\<lambda>pr. thorough_probe_succeeds (net pr)) (protocols_to_test (fst (snd (parse_proxy I p)))) \<and>
   response_time (check_proxy_result I ip net p) =
     (case rev (filter (\<lambda>pr. thorough_probe_succeeds (net pr))
                  (protocols_to_test (fst (snd (parse_proxy I p))))) of
        [] \<Rightarrow> None
      | pr # earlier \<Rightarrow> Some (round3 I (latency (net pr)))) \<and>
   length (protocols (check_proxy_result I ip net p)) \<le> 2"
proof -
  have "length (filter (\<lambda>pr. thorough_probe_succeeds (net pr))
          (protocols_to_test (fst (snd (parse_proxy I p))))) \<le> 2"
    by (rule order_trans[OF length_filter_le length_protocols_to_test])
  then have "length (protocols (check_proxy_result I ip net p)) \<le> 2"
    by (simp only: check_proxy_result_protocols)
  with protocols_to_test_cases[of d] check_proxy_result_protocols[of I ip net p]
    check_proxy_result_response_time[of I ip net p]
  show ?thesis by blast
qed

text \<open>
  Claim C7 as stated fails: when both probes succeed, the first after 1 second and the
  second after 2 seconds, two protocols are recorded and \<open>response_time\<close> is 2.
\<close>

theorem both_protocols_recorded_counterexample:
  "protocols (check_proxy_result latin1 None
     (\<lambda>pr. Responded \<lparr>status = 200, headers = [], body = Inr []\<rparr> (if pr = str ''http'' then 1 else 2))
     (str ''1.2.3.4:8080'')) = [str ''http'', str ''https''] \<and>
   response_time (check_proxy_result latin1 None
     (\<lambda>pr. Responded \<lparr>status = 200, headers = [], body = Inr []\<rparr> (if pr = str ''http'' then 1 else 2))
     (str ''1.2.3.4:8080'')) = Some 2"
  by (simp add: check_proxy_result_fields(1,3)[OF parse_proxy_8080]
      protocols_to_test_http thorough_200 latency_def http_neq_https round3_latin1_2)

section \<open>The empty candidate set\<close>

lemma fast_check_all_empty: "fst (fast_check_all net fc [] fm) = Map.empty"
  by (simp add: fast_check_all_def Let_def)

lemma check_all_empty: "fst (check_all I my_ip net c []) = results c"
  by (simp add: check_all_def)

lemma new_checker_buckets:
  "map (results new_checker)
     [str ''http'', str ''https'', str ''socks4'', str ''socks5'', str ''elite'', str ''anonymous'',
      str ''transparent'', str ''all_working''] =
   [Some [], Some [], Some [], Some [], Some [], Some [], Some [], Some []]"
  by (simp add: new_checker_def str_def)

text \<open>
  Claim C6. On the empty candidate set the fast checker returns the empty dictionary, with
  no bucket in it; the thorough checker returns its dictionary as it stands, which for a
  new checker holds the eight buckets, each empty.
\<close>

theorem empty_candidate_set:
  "fst (fast_check_all net fc [] fm) = Map.empty \<and>
   fst (check_all I my_ip cnet c []) = results c \<and>
   map (fst (check_all I my_ip cnet new_checker []))
     [str ''http'', str ''https'', str ''socks4'', str ''socks5'', str ''elite'', str ''anonymous'',
      str ''transparent'', str ''all_working''] =
   [Some [], Some [], Some [], Some [], Some [], Some [], Some [], Some []]"
  by (simp only: fast_check_all_empty check_all_empty new_checker_buckets simp_thms)

section \<open>The counters of the cache\<close>

lemma sql_add1_mono: "x \<le> y \<Longrightarrow> sql_add1 x \<le> sql_add1 y"
  by (simp add: sql_add1_def)

lemma sql_add1_ge: "x \<le> sql_add1 x"
  by (simp add: sql_add1_def)

lemma sql_add1_small: "0 \<le> x \<Longrightarrow> x < 9223372036854775807 \<Longrightarrow> sql_add1 x = x + 1"
  by (simp add: sql_add1_def)

lemma counts_ok_upsert:
  "counts_ok r \<Longrightarrow>
   counts_ok (r\<lparr>row_protocols := ps, row_anonymity := a, row_response_time := rt, last_checked := s,
               check_count := sql_add1 (check_count r), success_count := sql_add1 (success_count r),
               is_working := True\<rparr>)"
  using sql_add1_mono[of "success_count r" "check_count r"] sql_add1_ge[of "success_count r"]
  by (simp add: counts_ok_def)

lemma counts_ok_dead:
  "counts_ok r \<Longrightarrow>
   counts_ok (r\<lparr>is_working := False, last_checked := s, check_count := sql_add1 (check_count r)\<rparr>)"
  using sql_add1_ge[of "check_count r"]
  by (simp add: counts_ok_def)

lemma cache_working_proxy_counts:
  assumes "list_all counts_ok db"
  shows "list_all counts_ok (cache_working_proxy db stamp failed p protos anon rt)"
proof -
  have "list_all counts_ok
          (map (\<lambda>r. if row_proxy r = p
                    then r\<lparr>row_protocols := ps, row_anonymity := anon,
                           row_response_time := rt, last_checked := stamp,
                           check_count := sql_add1 (check_count r),
                           success_count := sql_add1 (success_count r),
                           is_working := True\<rparr>
                    else r) db)" for ps
    using assms by (induction db) (simp_all add: counts_ok_upsert)
  moreover have "counts_ok \<lparr>row_proxy = p, row_protocols = ps, row_anonymity = anon,
                         row_response_time = rt, last_checked = stamp, check_count = 1,
                         success_count = 1, country = None, is_working = True\<rparr>" for ps
    by (simp add: counts_ok_def)
  ultimately show ?thesis
    using assms by (simp add: cache_working_proxy_def Let_def)
qed

lemma mark_proxy_dead_counts:
  assumes "list_all counts_ok db"
  shows "list_all counts_ok (mark_proxy_dead db stamp failed p)"
proof -
  have "list_all counts_ok
          (map (\<lambda>r. if row_proxy r = p
                    then r\<lparr>is_working := False, last_checked := stamp,
                           check_count := sql_add1 (check_count r)\<rparr>
                    else r) db)"
    using assms by (induction db) (simp_all add: counts_ok_dead)
  then show ?thesis
    using assms by (simp add: mark_proxy_dead_def)
qed

lemma apply_op_counts: "list_all counts_ok db \<Longrightarrow> list_all counts_ok (apply_op db operation)"
  by (cases operation) (simp_all add: cache_working_proxy_counts mark_proxy_dead_counts)

lemma apply_ops_counts: "list_all counts_ok db \<Longrightarrow> list_all counts_ok (apply_ops db ops)"
  unfolding apply_ops_def
  by (induction ops arbitrary: db) (simp_all add: apply_op_counts)

lemma upsert_new:
  "\<not> list_ex (\<lambda>r. row_proxy r = p) db \<Longrightarrow>
   cache_working_proxy db stamp False p protos anon rt =
     db @ [\<lparr>row_proxy = p, row_protocols = join (str '','') protos, row_anonymity = anon,
            row_response_time = rt, last_checked = stamp, check_count = 1,
            success_count = 1, country = None, is_working = True\<rparr>]"
  by (simp add: cache_working_proxy_def Let_def)

lemma upsert_existing:
  "list_ex (\<lambda>r. row_proxy r = p) db \<Longrightarrow>
   map (\<lambda>r. (check_count r, success_count r)) (cache_working_proxy db stamp False p protos anon rt) =
   map (\<lambda>r. if row_proxy r = p then (sql_add1 (check_count r), sql_add1 (success_count r))
            else (check_count r, success_count r)) db"
  by (simp add: cache_working_proxy_def Let_def)

lemma mark_dead_counts:
  "map (\<lambda>r. (check_count r, success_count r)) (mark_proxy_dead db stamp False p) =
   map (\<lambda>r. if row_proxy r = p then (sql_add1 (check_count r), success_count r)
            else (check_count r, success_count r)) db"
  by (simp add: mark_proxy_dead_def)

text \<open>
  Claim C4. Every sequence of \<open>cache_working_proxy\<close> and \<open>mark_proxy_dead\<close> calls, failed
  statements included, keeps \<open>0 \<le> success_count \<le> check_count\<close> in every row, from the
  empty cache and from every cache where it holds. An upsert of a new proxy appends a row
  with both counters 1, an upsert of a known proxy adds 1 to both counters of its row, and
  \<open>mark_proxy_dead\<close> adds 1 to \<open>check_count\<close> only.
\<close>

theorem cache_counts_invariant:
  "(list_all counts_ok db \<longrightarrow> list_all counts_ok (apply_ops db ops)) \<and>
   list_all counts_ok (apply_ops [] ops) \<and>
   counts_ok r = (0 \<le> success_count r \<and> success_count r \<le> check_count r) \<and>
   (\<not> list_ex (\<lambda>r. row_proxy r = p) db \<longrightarrow>
      cache_working_proxy db stamp False p protos anon rt =
        db @ [\<lparr>row_proxy = p, row_protocols = join (str '','') protos, row_anonymity = anon,
               row_response_time = rt, last_checked = stamp, check_count = 1,
               success_count = 1, country = None, is_working = True\<rparr>]) \<and>
   (list_ex (\<lambda>r. row_proxy r = p) db \<longrightarrow>
      map (\<lambda>r. (check_count r, success_count r)) (cache_working_proxy db stamp False p protos anon rt) =
      map (\<lambda>r. if row_proxy r = p then (sql_add1 (check_count r), sql_add1 (success_count r))
               else (check_count r, success_count r)) db) \<and>
   map (\<lambda>r. (check_count r, success_count r)) (mark_proxy_dead db stamp False p) =
     map (\<lambda>r. if row_proxy r = p then (sql_add1 (check_count r), success_count r)
              else (check_count r, success_count r)) db \<and>
   (0 \<le> x \<and> x < 9223372036854775807 \<longrightarrow> sql_add1 x = x + 1)"
proof -
  have "list_all counts_ok (apply_ops [] ops)"
    by (rule apply_ops_counts) simp
  with apply_ops_counts[of db ops] upsert_new[of p db stamp protos anon rt]
    upsert_existing[of p db stamp protos anon rt] mark_dead_counts[of db stamp p]
    sql_add1_small[of x] counts_ok_def[of r]
  show ?thesis by blast
qed

lemma ops_example:
  "map (\<lambda>r. (check_count r, success_count r))
     (apply_ops []
        [Upsert (str ''2026-11-04 10:00:00'') False (str ''1.2.3.4:8080'') [str ''http''] (str ''elite'') 1,
         MarkDead (str ''2026-11-04 11:00:00'') False (str ''1.2.3.4:8080''),
         Upsert (str ''2026-11-04 12:00:00'') False (str ''1.2.3.4:8080'') [str ''http''] (str ''elite'') 1]) =
   [(3, 2)]"
  by (simp add: apply_ops_def cache_working_proxy_def mark_proxy_dead_def sql_add1_def Let_def)

theorem cache_counts_invariant_witness:
  "list_all counts_ok [] \<and>
   list_all counts_ok
     (apply_ops []
        [Upsert (str ''2026-11-04 10:00:00'') False (str ''1.2.3.4:8080'') [str ''http''] (str ''elite'') 1,
         MarkDead (str ''2026-11-04 11:00:00'') False (str ''1.2.3.4:8080''),
         Upsert (str ''2026-11-04 12:00:00'') False (str ''1.2.3.4:8080'') [str ''http''] (str ''elite'') 1]) \<and>
   map (\<lambda>r. (check_count r, success_count r))
     (apply_ops []
        [Upsert (str ''2026-11-04 10:00:00'') False (str ''1.2.3.4:8080'') [str ''http''] (str ''elite'') 1,
         MarkDead (str ''2026-11-04 11:00:00'') False (str ''1.2.3.4:8080''),
         Upsert (str ''2026-11-04 12:00:00'') False (str ''1.2.3.4:8080'') [str ''http''] (str ''elite'') 1]) =
   [(3, 2)] \<and>
   \<not> list_ex (\<lambda>r. row_proxy r = str ''1.2.3.4:8080'') [] \<and>
   map (\<lambda>r. (check_count r, success_count r))
     (cache_working_proxy [] (str ''2026-11-04 10:00:00'') False (str ''1.2.3.4:8080'') [str ''http'']
        (str ''elite'') 1) = [(1, 1)] \<and>
   (0::int) \<le> 2 \<and> (2::int) < 9223372036854775807 \<and> sql_add1 2 = 3"
proof -
  let ?ops = "[Upsert (str ''2026-11-04 10:00:00'') False (str ''1.2.3.4:8080'') [str ''http''] (str ''elite'') 1,
         MarkDead (str ''2026-11-04 11:00:00'') False (str ''1.2.3.4:8080''),
         Upsert (str ''2026-11-04 12:00:00'') False (str ''1.2.3.4:8080'') [str ''http''] (str ''elite'') 1]"
  note t = cache_counts_invariant[where db="[]" and ops="?ops" and p="str ''1.2.3.4:8080''"
      and stamp="str ''2026-11-04 10:00:00''" and protos="[str ''http'']" and anon="str ''elite''"
      and rt=1 and x=2]
  from t have 1: "list_all counts_ok (apply_ops [] ?ops)" by blast
  from t have 2: "cache_working_proxy [] (str ''2026-11-04 10:00:00'') False (str ''1.2.3.4:8080'')
      [str ''http''] (str ''elite'') 1 =
      [] @ [\<lparr>row_proxy = str ''1.2.3.4:8080'', row_protocols = join (str '','') [str ''http''],
             row_anonymity = str ''elite'', row_response_time = 1,
             last_checked = str ''2026-11-04 10:00:00'', check_count = 1,
             success_count = 1, country = None, is_working = True\<rparr>]"
    by simp
  from t have 3: "sql_add1 2 = 3" by simp
  from 1 3 ops_example show ?thesis
    unfolding 2 by simp
qed

section \<open>The query of the cache\<close>

lemma cutoff_example:
  "minus_hours \<lparr>year = 2026, month = 11, day = 4, hour = 12, minute = 0, second = 0,
                 microsecond = 250000\<rparr> 24 =
   Some \<lparr>year = 2026, month = 11, day = 3, hour = 12, minute = 0, second = 0, microsecond = 250000\<rparr>"
  by (simp add: minus_hours_def ymd2ord_def ord2ymd_def days_before_year_def days_before_month_def
      DAYS_BEFORE_MONTH_def DAYS_IN_MONTH_def is_leap_def Let_def)

lemma isoformat_example:
  "isoformat \<lparr>year = 2026, month = 11, day = 3, hour = 12, minute = 0, second = 0,
              microsecond = 250000\<rparr> = str ''2026-11-03T12:00:00.250000''"
  by (simp add: isoformat_def zpad_def show_nat_small show_nat_big str_def)

lemma text_less_example:
  "text_less (str ''2026-11-03T12:00:00.250000'') (str ''2026-11-04 11:00:00'')"
  "\<not> text_less (str ''2026-11-03T12:00:00.250000'') (str ''2026-11-03 13:00:00'')"
  by (simp_all add: str_def)

lemma like_example:
  "like (str ''%'' @ str ''http'' @ str ''%'') (str ''https'')"
  by (simp add: str_def ascii_lower_def)

lemma http_nonempty: "str ''http'' \<noteq> []"
  by (simp add: str_def)

text \<open>
  Claim C5. The cache holds two working rows: \<open>1.1.1.1:80\<close> with protocols \<open>https\<close>, checked
  one hour before now, and \<open>2.2.2.2:80\<close> with protocols \<open>http\<close>, checked 23 hours before
  now. The query for protocol \<open>http\<close> with a maximal age of 24 hours returns the first row
  only, and so does the query without a protocol: the row checked 23 hours ago is not
  returned, and the row whose only protocol is \<open>https\<close> is returned for \<open>http\<close>.
\<close>

theorem cached_query_example:
  "get_cached_proxies
     [\<lparr>row_proxy = str ''1.1.1.1:80'', row_protocols = str ''https'', row_anonymity = str ''elite'',
       row_response_time = 1 / 2, last_checked = str ''2026-11-04 11:00:00'', check_count = 1,
       success_count = 1, country = None, is_working = True\<rparr>,
      \<lparr>row_proxy = str ''2.2.2.2:80'', row_protocols = str ''http'', row_anonymity = str ''elite'',
       row_response_time = 1 / 5, last_checked = str ''2026-11-03 13:00:00'', check_count = 1,
       success_count = 1, country = None, is_working = True\<rparr>]
     \<lparr>year = 2026, month = 11, day = 4, hour = 12, minute = 0, second = 0, microsecond = 250000\<rparr>
     (Some (str ''http'')) None 24 =
   Some [\<lparr>row_proxy = str ''1.1.1.1:80'', row_protocols = str ''https'', row_anonymity = str ''elite'',
          row_response_time = 1 / 2, last_checked = str ''2026-11-04 11:00:00'', check_count = 1,
          success_count = 1, country = None, is_working = True\<rparr>] \<and>
   get_cached_proxies
     [\<lparr>row_proxy = str ''1.1.1.1:80'', row_protocols = str ''https'', row_anonymity = str ''elite'',
       row_response_time = 1 / 2, last_checked = str ''2026-11-04 11:00:00'', check_count = 1,
       success_count = 1, country = None, is_working = True\<rparr>,
      \<lparr>row_proxy = str ''2.2.2.2:80'', row_protocols = str ''http'', row_anonymity = str ''elite'',
       row_response_time = 1 / 5, last_checked = str ''2026-11-03 13:00:00'', check_count = 1,
       success_count = 1, country = None, is_working = True\<rparr>]
     \<lparr>year = 2026, month = 11, day = 4, hour = 12, minute = 0, second = 0, microsecond = 250000\<rparr>
     None None 24 =
   Some [\<lparr>row_proxy = str ''1.1.1.1:80'', row_protocols = str ''https'', row_anonymity = str ''elite'',
          row_response_time = 1 / 2, last_checked = str ''2026-11-04 11:00:00'', check_count = 1,
          success_count = 1, country = None, is_working = True\<rparr>]"
  by (simp add: get_cached_proxies_def cutoff_example isoformat_example text_less_example
      like_example http_nonempty)

end
